theory Spec2Isabelle
  imports Main "HOL-Library.AList" "HOL-Library.Sublist"
begin

section \<open>Values of the object/document mapping layer\<close>

text \<open>
  The data service (\<^verbatim>\<open>data.service.ts\<close>) moves values between two worlds: the documents
  of the remote store (\<^verbatim>\<open>Parse.Object\<close>, \<^verbatim>\<open>Parse.File\<close>) and the domain objects of the
  application (\<^verbatim>\<open>EntityObject\<close>, \<^verbatim>\<open>EntityFile\<close>, \<^verbatim>\<open>User\<close>). TypeScript erases the
  static types at run time and the service classifies values with \<^verbatim>\<open>instanceof\<close>, so one
  datatype of run-time values is used here.

  \<^item> \<open>Undef\<close> stands for both \<^verbatim>\<open>undefined\<close> and \<^verbatim>\<open>null\<close> (the source only ever tests
    \<^verbatim>\<open>!= undefined\<close>, \<^verbatim>\<open>== undefined\<close> or truthiness, which do not tell them apart).
  \<^item> \<open>PObject k cn i as\<close> is a \<^verbatim>\<open>Parse.Object\<close> (or its subclass \<^verbatim>\<open>Parse.User\<close> or
    \<^verbatim>\<open>Parse.Role\<close>, as \<open>k\<close> says) with class name \<open>cn\<close>, identifier \<open>i\<close>
    (\<open>None\<close> while the document has not been saved) and attribute bag \<open>as\<close>.
  \<^item> \<open>PFile n u\<close> is a \<^verbatim>\<open>Parse.File\<close> with name \<open>n\<close> and url \<open>u\<close>.
  \<^item> \<open>Obj k fs\<close> is any other JavaScript object, with its own enumerable properties \<open>fs\<close>
    in insertion order; \<open>k\<close> records the class it was constructed from.

  Documents are finite trees: a nested document is a value inside the attribute bag.
  Objects that are not Parse objects are taken to have no \<^verbatim>\<open>className\<close> property.
\<close>

datatype scalar = SStr string | SNum int | SBool bool

datatype pkind = ObjectK | UserPK | RolePK

datatype okind = EntityObjectK | EntityFileK | UserK | PlainK

datatype val =
    Undef
  | Scalar scalar
  | Arr "val list"
  | PObject pkind string "string option" "(string \<times> val) list"
  | PFile string string
  | Obj okind "(string \<times> val) list"

type_synonym fields = "(string \<times> val) list"

datatype error =
    Error string      \<comment> \<open>\<^verbatim>\<open>throw Error(msg)\<close> / \<^verbatim>\<open>throw new Error(msg)\<close>\<close>
  | Thrown string     \<comment> \<open>\<^verbatim>\<open>throw "a string"\<close>\<close>
  | TypeError string  \<comment> \<open>raised by the JavaScript run time\<close>

text \<open>What the code does besides returning: calls on the remote store and console output.\<close>

datatype effect =
    StoreGet string
  | StoreSave val
  | StoreDestroy val
  | ConsoleError string

subsection \<open>JavaScript primitives used by the service\<close>

fun truthy :: "val \<Rightarrow> bool" where
  "truthy Undef = False"
| "truthy (Scalar (SStr s)) = (s \<noteq> [])"
| "truthy (Scalar (SNum n)) = (n \<noteq> 0)"
| "truthy (Scalar (SBool b)) = b"
| "truthy _ = True"

text \<open>\<^verbatim>\<open>v instanceof Parse.Object\<close>. The domain class \<^verbatim>\<open>User\<close> is declared
  \<^verbatim>\<open>class User extends Parse.User\<close> (users.service.ts), so a mapped user passes the test too.\<close>

fun isParseObject :: "val \<Rightarrow> bool" where
  "isParseObject (PObject k cn i as) = True"
| "isParseObject (Obj UserK fs) = True"
| "isParseObject _ = False"

fun isParseFile :: "val \<Rightarrow> bool" where
  "isParseFile (PFile n u) = True"
| "isParseFile _ = False"

fun isParseUser :: "val \<Rightarrow> bool" where
  "isParseUser (PObject UserPK cn i as) = True"
| "isParseUser (Obj UserK fs) = True"
| "isParseUser _ = False"

fun isParseRole :: "val \<Rightarrow> bool" where
  "isParseRole (PObject RolePK cn i as) = True"
| "isParseRole _ = False"

fun isArray :: "val \<Rightarrow> bool" where
  "isArray (Arr xs) = True"
| "isArray _ = False"

fun elems :: "val \<Rightarrow> val list" where
  "elems (Arr xs) = xs"
| "elems _ = []"

text \<open>\<^verbatim>\<open>v instanceof Object\<close>: everything except primitives.\<close>

fun isObject :: "val \<Rightarrow> bool" where
  "isObject Undef = False"
| "isObject (Scalar s) = False"
| "isObject _ = True"

text \<open>Reading a property of an object, \<^verbatim>\<open>o[name]\<close>: \<^verbatim>\<open>undefined\<close> when it is not there.\<close>

definition lookup :: "fields \<Rightarrow> string \<Rightarrow> val" where
  "lookup fs name = (case map_of fs name of None \<Rightarrow> Undef | Some v \<Rightarrow> v)"

text \<open>Assigning a property, \<^verbatim>\<open>o[name] = v\<close>: an existing property keeps its place, a new
  one goes to the end.\<close>

definition assign :: "string \<Rightarrow> val \<Rightarrow> fields \<Rightarrow> fields" where
  "assign name v fs = AList.update name v fs"

fun optStr :: "string option \<Rightarrow> val" where
  "optStr None = Undef"
| "optStr (Some s) = Scalar (SStr s)"

text \<open>The properties the service reads from a value: \<^verbatim>\<open>.className\<close>, \<^verbatim>\<open>.attributes\<close>,
  \<^verbatim>\<open>.id\<close>. Reading \<^verbatim>\<open>.id\<close> of \<^verbatim>\<open>undefined\<close> raises, which the callers
  below check for before they call \<open>idOf\<close>.\<close>

fun className :: "val \<Rightarrow> string option" where
  "className (PObject k cn i as) = Some cn"
| "className (Obj UserK fs) = Some ''_User''"
| "className _ = None"

fun attributes :: "val \<Rightarrow> fields" where
  "attributes (PObject k cn i as) = as"
| "attributes _ = []"

fun idOf :: "val \<Rightarrow> val" where
  "idOf (PObject k cn i as) = optStr i"
| "idOf (Obj k fs) = lookup fs ''id''"
| "idOf _ = Undef"

text \<open>Reading a property of a value, \<^verbatim>\<open>v[name]\<close> or \<^verbatim>\<open>v.name\<close>, for the
  properties that live on domain objects. Parse objects keep their data in the attribute
  bag, read with \<^verbatim>\<open>get\<close>, and have no such property.\<close>

fun propOf :: "val \<Rightarrow> string \<Rightarrow> val" where
  "propOf (Obj k fs) name = lookup fs name"
| "propOf _ name = Undef"

fun setProp :: "string \<Rightarrow> val \<Rightarrow> val \<Rightarrow> val" where
  "setProp name v (Obj k fs) = Obj k (assign name v fs)"
| "setProp name v other = other"

text \<open>The names a \<^verbatim>\<open>for (property in o)\<close> loop visits: the own enumerable properties in
  insertion order. The property names of an object are distinct; a list with a repeated
  name does not represent an object.\<close>

fun keys :: "val \<Rightarrow> string list" where
  "keys (Obj k fs) = map fst fs"
| "keys _ = []"

text \<open>\<^verbatim>\<open>parseObject.get(name)\<close> of the store client: the attribute, or \<^verbatim>\<open>undefined\<close>.\<close>

definition get_p :: "val \<Rightarrow> string \<Rightarrow> val" where
  "get_p doc name = lookup (attributes doc) name"

section \<open>The class registry\<close>

text \<open>
  \<^verbatim>\<open>Classnames\<close> (classnames.model.ts) has three static members: \<^verbatim>\<open>_Role\<close>, an
  \<^verbatim>\<open>EntityObjectDefinition\<close>, and the two strings \<^verbatim>\<open>_User = "_User"\<close> and
  \<^verbatim>\<open>File = "_File"\<close>. Applications add their own definitions to the class; these are the
  parameter \<open>app\<close>. A constructor \<^verbatim>\<open>type\<close> is represented by the properties of a freshly
  constructed instance. \<^verbatim>\<open>Role\<close> initialises \<^verbatim>\<open>users = []\<close> and \<^verbatim>\<open>roles = []\<close>
  (roles.service.ts).
\<close>

record entityObjectDefinition =
  classname :: string
  type_new :: fields

datatype classReference = ClassString string | ClassDefinition entityObjectDefinition

definition Role_new :: fields where
  "Role_new = [(''users'', Arr []), (''roles'', Arr [])]"

definition Classnames :: "(string \<rightharpoonup> entityObjectDefinition) \<Rightarrow> string \<Rightarrow> classReference option" where
  "Classnames app cn =
     (if cn = ''_Role'' then Some (ClassDefinition \<lparr>classname = ''_Role'', type_new = Role_new\<rparr>)
      else if cn = ''_User'' then Some (ClassString ''_User'')
      else if cn = ''File'' then Some (ClassString ''_File'')
      else map_option ClassDefinition (app cn))"

lemma Classnames_not_File: "Classnames app cn \<noteq> Some (ClassString ''File'')"
  by (auto simp: Classnames_def)

section \<open>Hydration: document to domain object\<close>

text \<open>\<^verbatim>\<open>mapFile(parseFile)\<close> reads \<^verbatim>\<open>name()\<close> and \<^verbatim>\<open>url()\<close>, which only a file has. The
  service calls it on a value that passed \<^verbatim>\<open>instanceof Parse.File\<close>, or in the branch for
  the registry string \<^verbatim>\<open>"File"\<close>, which the registry never gives
  (\<open>Classnames_not_File\<close>); the second case below is therefore never used.\<close>

definition mapFile :: "val \<Rightarrow> val" where
  "mapFile parseFile =
     Obj EntityFileK
       (case parseFile of
          PFile n u \<Rightarrow> [(''name'', Scalar (SStr n)), (''url'', Scalar (SStr u)), (''entity'', parseFile)]
        | _ \<Rightarrow> [(''name'', Undef), (''url'', Undef), (''entity'', parseFile)])"

definition mapParseUserToUser :: "val \<Rightarrow> val" where
  "mapParseUserToUser user =
     Obj UserK
       [(''email'', get_p user ''email''),
        (''username'', get_p user ''username''),
        (''role'', get_p user ''role''),
        (''entity'', user),
        (''id'', idOf user)]"

lemma attributes_size:
  "(k, a) \<in> set (attributes v) \<Longrightarrow> size a < size v"
proof (cases v)
  case (PObject pk cn i as)
  assume "(k, a) \<in> set (attributes v)"
  with PObject have "(k, a) \<in> set as" by simp
  then have "size a < Suc (size_list (size_prod (\<lambda>_. 0) size) as)"
    by (induction as) auto
  with PObject show ?thesis by simp
qed auto

lemma elems_size:
  "x \<in> set xs \<Longrightarrow> size x < Suc (size_list size xs)"
  by (induction xs) auto

text \<open>
  \<^verbatim>\<open>mapParseAttributesToEntityObject(parseElement, deepLevel = 0, maxDeep = 3)\<close>,
  the body of its \<^verbatim>\<open>forEach\<close> over the attributes (\<open>mapAttribute\<close>), and
  \<^verbatim>\<open>mapParseArrayOfAttributesToEntityObject(parseElements, deepLevel = 0, maxDeep = 2)\<close>.
  The array form calls the single form as
  \<^verbatim>\<open>this.mapParseAttributesToEntityObject(parseElement, deepLevel)\<close>: it passes no third
  argument, so the single form runs with its own default \<^verbatim>\<open>maxDeep = 3\<close>.

  The \<^verbatim>\<open>forEach\<close> assigns \<^verbatim>\<open>m[property]\<close> for each attribute in turn; the converted value
  does not depend on \<^verbatim>\<open>m\<close>, so the model converts all attributes and then assigns them in
  order.
\<close>

function mapParseAttributesToEntityObject ::
    "(string \<rightharpoonup> entityObjectDefinition) \<Rightarrow> val \<Rightarrow> int \<Rightarrow> int \<Rightarrow> val"
  and mapAttribute ::
    "(string \<rightharpoonup> entityObjectDefinition) \<Rightarrow> val \<Rightarrow> int \<Rightarrow> int \<Rightarrow> val"
  and mapParseArrayOfAttributesToEntityObject ::
    "(string \<rightharpoonup> entityObjectDefinition) \<Rightarrow> val list \<Rightarrow> int \<Rightarrow> int \<Rightarrow> val list"
where
  "mapParseAttributesToEntityObject app parseElement deepLevel maxDeep =
     (if \<not> truthy parseElement then Undef
      else case (case className parseElement of None \<Rightarrow> None | Some cn \<Rightarrow> Classnames app cn) of
        None \<Rightarrow> Undef
      | Some (ClassString s) \<Rightarrow>
          if s = ''_User'' then mapParseUserToUser parseElement
          else if s = ''File'' then mapFile parseElement
          else Undef
      | Some (ClassDefinition d) \<Rightarrow>
          Obj EntityObjectK
            (assign ''entity'' parseElement
              (if maxDeep \<noteq> deepLevel
               then foldl (\<lambda>m (element, v). assign element v m) (type_new d)
                      (map (\<lambda>(element, a). (element, mapAttribute app a deepLevel maxDeep))
                           (attributes parseElement))
               else type_new d)))"
| "mapAttribute app a deepLevel maxDeep =
     (if isParseFile a then mapFile a
      else if isParseObject a then mapParseAttributesToEntityObject app a (deepLevel + 1) maxDeep
      else if isArray a \<and> elems a \<noteq> [] \<and> isParseObject (hd (elems a))
        then Arr (mapParseArrayOfAttributesToEntityObject app (elems a) (deepLevel + 1) maxDeep)
      else if isParseUser a then mapParseUserToUser a
      else if isParseRole a then mapParseAttributesToEntityObject app a (deepLevel + 1) maxDeep
      else a)"
| "mapParseArrayOfAttributesToEntityObject app parseElements deepLevel maxDeep =
     (if maxDeep \<noteq> deepLevel
      then map (\<lambda>parseElement. mapParseAttributesToEntityObject app parseElement deepLevel 3)
             parseElements
      else parseElements)"
  by pat_completeness auto
termination
proof (relation "measure (\<lambda>x. case x of
          Inl (app, v, d, m) \<Rightarrow> 2 * size v
        | Inr (Inl (app, v, d, m)) \<Rightarrow> 2 * size v + 1
        | Inr (Inr (app, vs, d, m)) \<Rightarrow> 2 * size_list size vs + 1)", goal_cases)
  case 1
  show ?case by simp
next
  case (2 app parseElement deepLevel maxDeep x2 x2a x2b xa xb)
  then show ?case
    using attributes_size [of xa xb parseElement] by simp
next
  case (3 app a deepLevel maxDeep)
  then show ?case by simp
next
  case (4 app a deepLevel maxDeep)
  then show ?case by (cases a) auto
next
  case (5 app a deepLevel maxDeep)
  then show ?case by simp
next
  case (6 app parseElements deepLevel maxDeep x)
  then show ?case
    using elems_size [of x parseElements] by simp
qed

declare mapParseAttributesToEntityObject.simps [simp del]
declare mapAttribute.simps [simp del]
declare mapParseArrayOfAttributesToEntityObject.simps [simp del]

text \<open>\<^verbatim>\<open>afterBufferDownload\<close> (the Live Buffer populate path) and \<^verbatim>\<open>afterSubUpdate\<close>
  (one subscription event).\<close>

definition afterBufferDownload :: "(string \<rightharpoonup> entityObjectDefinition) \<Rightarrow> val list \<Rightarrow> val list" where
  "afterBufferDownload app parseObjects = mapParseArrayOfAttributesToEntityObject app parseObjects 0 2"

definition afterSubUpdate :: "(string \<rightharpoonup> entityObjectDefinition) \<Rightarrow> val \<Rightarrow> val" where
  "afterSubUpdate app parseObject = mapParseAttributesToEntityObject app parseObject 0 3"

text \<open>\<^verbatim>\<open>getAll\<close>: \<open>count_result\<close> is the outcome of the count query (\<open>None\<close> when it is
  rejected) and \<open>find_result limit\<close> the outcome of the bounded query. The array form is called
  with its defaults, depth 0 and maximum depth 2.\<close>

definition queryLimit :: nat where
  "queryLimit = 100000"

definition getAll ::
  "(string \<rightharpoonup> entityObjectDefinition) \<Rightarrow> nat option \<Rightarrow> (nat \<Rightarrow> val list option) \<Rightarrow> val list" where
  "getAll app count_result find_result =
     (let numberOfStuffToDownload = (case count_result of Some res \<Rightarrow> res | None \<Rightarrow> queryLimit);
          entityObjects = (case find_result numberOfStuffToDownload of Some res \<Rightarrow> res | None \<Rightarrow> [])
      in mapParseArrayOfAttributesToEntityObject app entityObjects 0 2)"

section \<open>The store client\<close>

text \<open>
  Modelled from the spec: the operations of the remote store client on one document
  (\<^verbatim>\<open>set\<close>, \<^verbatim>\<open>unset\<close>, \<^verbatim>\<open>addUnique\<close>, \<^verbatim>\<open>addAllUnique\<close>, \<^verbatim>\<open>remove\<close>) belong to
  the vendor's client library, which is not part of the repository. The spec lists them
  as the capability interface \<^verbatim>\<open>object.set/get/unset(field, value)\<close>,
  \<^verbatim>\<open>object.addUnique/addAllUnique/remove(field, value)\<close> and describes add-unique and
  remove as operations by identifier on the array held by a field. They act on the
  attribute bag of the document and give back the document (a method of a value that is
  not a document does not exist, which is a \<open>TypeError\<close>). An add or a remove on a
  field that holds something other than an array is rejected: it gives back \<^verbatim>\<open>false\<close>
  and leaves the document as it was.
\<close>

definition notAFunction :: error where
  "notAFunction = TypeError ''is not a function''"

definition set_p :: "string \<Rightarrow> val \<Rightarrow> val \<Rightarrow> error + val" where
  "set_p name v doc =
     (case doc of
        PObject k cn i as \<Rightarrow> Inr (PObject k cn i (AList.update name v as))
      | _ \<Rightarrow> Inl notAFunction)"

definition unset :: "string \<Rightarrow> val \<Rightarrow> error + val" where
  "unset name doc =
     (case doc of
        PObject k cn i as \<Rightarrow> Inr (PObject k cn i (AList.delete name as))
      | _ \<Rightarrow> Inl notAFunction)"

text \<open>Two references are the same element when their identifiers are equal; values that
  are not documents are compared as they are.\<close>

definition sameRef :: "val \<Rightarrow> val \<Rightarrow> bool" where
  "sameRef x e = (if isParseObject x \<and> isParseObject e then idOf x = idOf e else x = e)"

definition rejected :: val where
  "rejected = Scalar (SBool False)"

definition addUnique :: "string \<Rightarrow> val \<Rightarrow> val \<Rightarrow> error + val" where
  "addUnique name x doc =
     (case doc of
        PObject k cn i as \<Rightarrow>
          (case get_p doc name of
             Undef \<Rightarrow> Inr (PObject k cn i (AList.update name (Arr [x]) as))
           | Arr xs \<Rightarrow>
               Inr (PObject k cn i
                     (AList.update name (Arr (if list_ex (sameRef x) xs then xs else xs @ [x])) as))
           | _ \<Rightarrow> Inr rejected)
      | _ \<Rightarrow> Inl notAFunction)"

definition remove_p :: "string \<Rightarrow> val \<Rightarrow> val \<Rightarrow> error + val" where
  "remove_p name x doc =
     (case doc of
        PObject k cn i as \<Rightarrow>
          (case get_p doc name of
             Undef \<Rightarrow> Inr (PObject k cn i (AList.update name (Arr []) as))
           | Arr xs \<Rightarrow>
               Inr (PObject k cn i
                     (AList.update name (Arr (filter (\<lambda>e. \<not> sameRef x e) xs)) as))
           | _ \<Rightarrow> Inr rejected)
      | _ \<Rightarrow> Inl notAFunction)"

text \<open>Sequencing of calls that may throw, and a loop that stops at the first throw.\<close>

definition bindE :: "error + 'a \<Rightarrow> ('a \<Rightarrow> error + 'b) \<Rightarrow> error + 'b" where
  "bindE r f = (case r of Inl e \<Rightarrow> Inl e | Inr x \<Rightarrow> f x)"

fun foldE :: "('s \<Rightarrow> 'a \<Rightarrow> error + 's) \<Rightarrow> 's \<Rightarrow> 'a list \<Rightarrow> error + 's" where
  "foldE f s [] = Inr s"
| "foldE f s (x # xs) = bindE (f s x) (\<lambda>s'. foldE f s' xs)"

definition addAllUnique :: "string \<Rightarrow> val list \<Rightarrow> val \<Rightarrow> error + val" where
  "addAllUnique name xs doc =
     (case doc of
        PObject k cn i as \<Rightarrow> foldE (\<lambda>d x. if truthy d then addUnique name x d else Inr d) doc xs
      | _ \<Rightarrow> Inl notAFunction)"

section \<open>Flattening: domain object to document\<close>

definition isEntityObject :: "val \<Rightarrow> bool" where
  "isEntityObject v = (case v of Obj EntityObjectK fs \<Rightarrow> True | _ \<Rightarrow> False)"

definition isEntityFile :: "val \<Rightarrow> bool" where
  "isEntityFile v = (case v of Obj EntityFileK fs \<Rightarrow> True | _ \<Rightarrow> False)"

text \<open>\<^verbatim>\<open>mapTypescriptAttributeToParseObjectAttribute\<close>. In the first test \<^verbatim>\<open>&&\<close> binds
  tighter than \<^verbatim>\<open>||\<close>: an \<^verbatim>\<open>EntityObject\<close> with no handle is mapped to \<^verbatim>\<open>undefined\<close>.\<close>

definition mapTypescriptAttributeToParseObjectAttribute :: "val \<Rightarrow> val" where
  "mapTypescriptAttributeToParseObjectAttribute attribute =
     (if isEntityObject attribute \<or> (isObject attribute \<and> propOf attribute ''entity'' \<noteq> Undef)
        then propOf attribute ''entity''
      else if isEntityFile attribute then propOf attribute ''entity''
      else if isParseObject attribute \<or> isParseFile attribute \<or> isParseUser attribute
              \<or> isParseRole attribute
        then attribute
      else attribute)"

definition checkIfIndexingIsNeeded :: "val \<Rightarrow> bool" where
  "checkIfIndexingIsNeeded attribute =
     (if isEntityObject attribute \<or> (isObject attribute \<and> propOf attribute ''entity'' \<noteq> Undef)
        then True
      else if isEntityFile attribute then True
      else if isParseObject attribute \<or> isParseFile attribute \<or> isParseUser attribute
              \<or> isParseRole attribute
        then True
      else False)"

subsection \<open>The reference-array diff\<close>

text \<open>
  \<^verbatim>\<open>ys.some((y) => y.id == x.id)\<close> and \<^verbatim>\<open>xs.filter((x) => !ys.some((y) => y.id == x.id))\<close>.
  \<^verbatim>\<open>some\<close> stops at the first hit; reading \<^verbatim>\<open>.id\<close> of \<^verbatim>\<open>undefined\<close> raises. Identifiers
  are strings or \<^verbatim>\<open>undefined\<close>, on which \<^verbatim>\<open>==\<close> is equality.
\<close>

definition idRead :: "val \<Rightarrow> error + val" where
  "idRead v = (if v = Undef then Inl (TypeError ''Cannot read properties of undefined'') else Inr (idOf v))"

fun some_id :: "val list \<Rightarrow> val \<Rightarrow> error + bool" where
  "some_id [] x = Inr False"
| "some_id (y # ys) x =
     bindE (idRead y) (\<lambda>yi. bindE (idRead x) (\<lambda>xi. if yi = xi then Inr True else some_id ys x))"

fun filter_not_some :: "val list \<Rightarrow> val list \<Rightarrow> error + val list" where
  "filter_not_some ys [] = Inr []"
| "filter_not_some ys (x # xs) =
     bindE (some_id ys x) (\<lambda>hit. bindE (filter_not_some ys xs) (\<lambda>r. Inr (if hit then r else x # r)))"

definition toRemove :: "val list \<Rightarrow> val list \<Rightarrow> error + val list" where
  "toRemove parseAttributes current = filter_not_some parseAttributes current"

definition toAdd :: "val list \<Rightarrow> val list \<Rightarrow> error + val list" where
  "toAdd parseAttributes current = filter_not_some current parseAttributes"

text \<open>The two loops that apply the diff: each call must give back a document.\<close>

definition addEach :: "string \<Rightarrow> val list \<Rightarrow> val \<Rightarrow> error + val" where
  "addEach property xs parseObject =
     foldE (\<lambda>po x. bindE (addUnique property x po)
                     (\<lambda>res. if truthy res then Inr res
                            else Inl (Error ''Error in adding element to array'')))
       parseObject xs"

definition removeEach :: "string \<Rightarrow> val list \<Rightarrow> val \<Rightarrow> error + val" where
  "removeEach property xs parseObject =
     foldE (\<lambda>po x. bindE (remove_p property x po)
                     (\<lambda>res. if truthy res then Inr res
                            else Inl (Error ''Error in removing element from array'')))
       parseObject xs"

definition applyDiff :: "string \<Rightarrow> val list \<Rightarrow> val list \<Rightarrow> val \<Rightarrow> error + val" where
  "applyDiff property adds removes parseObject =
     bindE (addEach property adds parseObject) (removeEach property removes)"

text \<open>The array branch of \<^verbatim>\<open>mappings\<close>, for one property whose elements have been mapped
  to \<open>parseAttributes\<close>. \<^verbatim>\<open>toRemove\<close> is computed before \<^verbatim>\<open>toAdd\<close>, both before any change.
  The result of \<^verbatim>\<open>addAllUnique\<close> is not looked at.\<close>

definition mapArrayProperty :: "string \<Rightarrow> val list \<Rightarrow> val \<Rightarrow> error + val" where
  "mapArrayProperty property parseAttributes parseObject =
     (if parseAttributes \<noteq> [] \<and> isParseObject (hd parseAttributes) then
        (if truthy (get_p parseObject property) then
           (if isArray (get_p parseObject property) then
              bindE (toRemove parseAttributes (elems (get_p parseObject property))) (\<lambda>removes.
              bindE (toAdd parseAttributes (elems (get_p parseObject property))) (\<lambda>adds.
              applyDiff property adds removes parseObject))
            else Inl notAFunction)
         else bindE (addAllUnique property parseAttributes parseObject)
                (\<lambda>res. Inr (if truthy res then res else parseObject)))
      else set_p property (Arr parseAttributes) parseObject)"

text \<open>One round of the \<^verbatim>\<open>for (property in entityObject)\<close> loop of \<^verbatim>\<open>mappings\<close>. The state
  is the document and the two lists \<^verbatim>\<open>entityArrayProperties\<close> and \<^verbatim>\<open>entityProperties\<close>.\<close>

definition mappingsStep ::
  "val \<Rightarrow> val \<times> string list \<times> string list \<Rightarrow> string \<Rightarrow> error + val \<times> string list \<times> string list" where
  "mappingsStep entityObject st property =
     (case st of (parseObject, entityArrayProperties, entityProperties) \<Rightarrow>
        if property = ''entity'' then Inr st
        else
          bindE
            (if propOf entityObject property \<noteq> Undef then
               (if isArray (propOf entityObject property) then
                  bindE (mapArrayProperty property
                           (map mapTypescriptAttributeToParseObjectAttribute
                              (elems (propOf entityObject property)))
                           parseObject)
                    (\<lambda>po. Inr (po,
                       (if list_ex checkIfIndexingIsNeeded (elems (propOf entityObject property))
                        then entityArrayProperties @ [property] else entityArrayProperties),
                       entityProperties))
                else
                  bindE (set_p property
                           (mapTypescriptAttributeToParseObjectAttribute (propOf entityObject property))
                           parseObject)
                    (\<lambda>po. Inr (po, entityArrayProperties,
                       (if checkIfIndexingIsNeeded (propOf entityObject property)
                        then entityProperties @ [property] else entityProperties))))
             else Inr st)
            (\<lambda>(po, eap, ep).
               if propOf entityObject property = Undef
               then bindE (unset property po) (\<lambda>po'. Inr (po', eap, ep))
               else Inr (po, eap, ep)))"

definition strings :: "string list \<Rightarrow> val" where
  "strings names = Arr (map (\<lambda>s. Scalar (SStr s)) names)"

text \<open>\<^verbatim>\<open>mappings(entityObject)\<close> of a service for the class \<open>cn\<close> (\<^verbatim>\<open>this.classname\<close>).\<close>

definition mappings :: "string \<Rightarrow> val \<Rightarrow> error + val" where
  "mappings cn entityObject =
     bindE
       (if propOf entityObject ''entity'' \<noteq> Undef then Inr (propOf entityObject ''entity'')
        else set_p ''classname'' (Scalar (SStr cn)) (PObject ObjectK cn None []))
       (\<lambda>parseObject.
          bindE (foldE (mappingsStep entityObject) (parseObject, [], []) (keys entityObject))
            (\<lambda>(po, entityArrayProperties, entityProperties).
               bindE (set_p ''entityArrayProperties'' (strings entityArrayProperties) po)
                 (set_p ''entityProperties'' (strings entityProperties))))"

section \<open>The data access operations\<close>

text \<open>
  The remote store is an external collaborator. Each operation below takes the outcome
  of the store calls it makes as a parameter (\<open>None\<close> for a rejected promise) and gives
  back, next to its result, the store calls and console errors it made, in order.
\<close>

text \<open>
  \<^verbatim>\<open>save(entityObject)\<close>. The rejection handler logs and yields \<^verbatim>\<open>undefined\<close>; then
  \<^verbatim>\<open>if (!savedEntity) return entityObject\<close>.

  When the object has a handle, \<^verbatim>\<open>mappings\<close> starts from
  \<^verbatim>\<open>parseObject = entityObject[entity]\<close>: the document it changes is the handle itself,
  one object in the program. Whatever \<^verbatim>\<open>save\<close> returns afterwards therefore carries the
  changed document in its \<^verbatim>\<open>entity\<close> property (\<open>entityObject'\<close> below). When the object
  has no handle, the new document is not attached to it before the store has answered.
\<close>

definition save :: "string \<Rightarrow> (val \<Rightarrow> val option) \<Rightarrow> val \<Rightarrow> (error + val) \<times> effect list" where
  "save cn store_save entityObject =
     (case mappings cn entityObject of
        Inl e \<Rightarrow> (Inl e, [])
      | Inr parseObject \<Rightarrow>
          (let entityObject' =
                 (if propOf entityObject ''entity'' \<noteq> Undef
                  then setProp ''entity'' parseObject entityObject else entityObject)
           in case store_save parseObject of
             None \<Rightarrow>
               (Inr entityObject', [StoreSave parseObject, ConsoleError ''Error in saving entity''])
           | Some savedEntity \<Rightarrow>
               if \<not> truthy savedEntity then (Inr entityObject', [StoreSave parseObject])
               else (Inr (setProp ''entity'' savedEntity entityObject'), [StoreSave parseObject])))"

text \<open>\<^verbatim>\<open>destroy(entityObject)\<close>. The success handler hydrates the deleted document with the
  defaults (depth 0, maximum depth 3).\<close>

definition destroy ::
  "(string \<rightharpoonup> entityObjectDefinition) \<Rightarrow> (val \<Rightarrow> val option) \<Rightarrow> val \<Rightarrow> (error + val) \<times> effect list" where
  "destroy app store_destroy entityObject =
     (if \<not> truthy (propOf entityObject ''entity'') then (Inl (Thrown ''Entity not found''), [])
      else if isParseObject (propOf entityObject ''entity'') \<or> isParseFile (propOf entityObject ''entity'') then
        (case store_destroy (propOf entityObject ''entity'') of
           Some res \<Rightarrow>
             (Inr (mapParseAttributesToEntityObject app res 0 3),
              [StoreDestroy (propOf entityObject ''entity'')])
         | None \<Rightarrow>
             (Inl (Error ''Error in deleting entity''),
              [StoreDestroy (propOf entityObject ''entity''), ConsoleError ''Error in deleting entity'']))
      else (Inl notAFunction, []))"

text \<open>The object spread \<^verbatim>\<open>{ ...v }\<close>: a plain object with the own properties of \<open>v\<close>;
  spreading \<^verbatim>\<open>undefined\<close> gives the empty object.\<close>

fun spread :: "val \<Rightarrow> val" where
  "spread (Obj k fs) = Obj PlainK fs"
| "spread v = Obj PlainK []"

text \<open>\<^verbatim>\<open>getFullObjectById(id)\<close>, given the outcome \<open>response\<close> of
  \<^verbatim>\<open>query.includeAll().get(id)\<close>.\<close>

definition getFullObjectById ::
  "(string \<rightharpoonup> entityObjectDefinition) \<Rightarrow> val option \<Rightarrow> string \<Rightarrow> (error + val) \<times> effect list" where
  "getFullObjectById app response ident =
     (case response of
        None \<Rightarrow>
          (Inl (Error ''Error: Object not found.''), [StoreGet ident, ConsoleError ''Cannot download object''])
      | Some res \<Rightarrow>
          if \<not> truthy res then (Inl (Error ''Error: Object not found.''), [StoreGet ident])
          else (Inr (spread (mapParseAttributesToEntityObject app res 0 3)), [StoreGet ident]))"

text \<open>\<^verbatim>\<open>String.prototype.includes\<close> and the \<^verbatim>\<open>message\<close> of a thrown value (a thrown
  string has none).\<close>

fun includes_str :: "string \<Rightarrow> string \<Rightarrow> bool" where
  "includes_str [] sub = (sub = [])"
| "includes_str (c # cs) sub = (prefix sub (c # cs) \<or> includes_str cs sub)"

fun message :: "error \<Rightarrow> string option" where
  "message (Error m) = Some m"
| "message (TypeError m) = Some m"
| "message (Thrown s) = None"

text \<open>
  \<^verbatim>\<open>fetchObjectByIdIfNeeded(id)\<close>. \<open>dataBuffer\<close> is \<open>None\<close> while \<^verbatim>\<open>this.dataBuffer\<close> is
  undefined. \<open>store_get n ident\<close> is the outcome of the \<open>n\<close>-th query (counted from 0)
  this call makes for \<open>ident\<close>. The first test returns the full fetch outside the
  \<^verbatim>\<open>try\<close>; inside the \<^verbatim>\<open>try\<close>, a failing fetch is caught and the fetch is made again, now
  inside the inner \<^verbatim>\<open>try\<close>.
\<close>

definition fetchObjectByIdIfNeeded ::
  "(string \<rightharpoonup> entityObjectDefinition) \<Rightarrow> (nat \<Rightarrow> string \<Rightarrow> val option) \<Rightarrow> fields option \<Rightarrow> string
     \<Rightarrow> (error + val) \<times> effect list" where
  "fetchObjectByIdIfNeeded app store_get dataBuffer ident =
     (case dataBuffer of
        None \<Rightarrow> getFullObjectById app (store_get 0 ident) ident
      | Some buffer \<Rightarrow>
          if length (map fst buffer) = 0 then getFullObjectById app (store_get 0 ident) ident
          else if truthy (lookup buffer ident) then (Inr (lookup buffer ident), [])
          else
            (case getFullObjectById app (store_get 0 ident) ident of
               (Inr returnValue, effs) \<Rightarrow> (Inr returnValue, effs)
             | (Inl err, effs) \<Rightarrow>
                 (case getFullObjectById app (store_get 1 ident) ident of
                    (Inr returnValue, effs') \<Rightarrow> (Inr returnValue, effs @ effs')
                  | (Inl err', effs') \<Rightarrow>
                      (case message err' of
                         None \<Rightarrow> (Inl (TypeError ''Cannot read properties of undefined''), effs @ effs')
                       | Some m \<Rightarrow>
                           if includes_str m ''Object not found.'' then (Inr Undef, effs @ effs')
                           else (Inr Undef, effs @ effs' @ [ConsoleError m])))))"

section \<open>The Live Buffer\<close>

text \<open>
  The state of a live buffer: the cache \<^verbatim>\<open>dataBuffer\<close>, keyed by identifier, and the
  events emitted so far on \<^verbatim>\<open>externalSubscription\<close> (name and payload), oldest first.
  The handlers are the callbacks that \<^verbatim>\<open>startupBuffer\<close> registers on the subscription;
  they run one at a time. Identifiers are strings; used as a property key, a missing
  identifier reads as the key \<^verbatim>\<open>"undefined"\<close>.
\<close>

record liveBuffer =
  dataBuffer :: fields
  emitted :: "(string \<times> val) list"

definition idKey :: "val \<Rightarrow> string" where
  "idKey v = (case idOf v of Scalar (SStr s) \<Rightarrow> s | _ \<Rightarrow> ''undefined'')"

definition emit :: "string \<Rightarrow> val \<Rightarrow> liveBuffer \<Rightarrow> liveBuffer" where
  "emit name payload st = st\<lparr>emitted := emitted st @ [(name, payload)]\<rparr>"

definition deleteKey :: "string \<Rightarrow> liveBuffer \<Rightarrow> liveBuffer" where
  "deleteKey key st = st\<lparr>dataBuffer := AList.delete key (dataBuffer st)\<rparr>"

definition putKey :: "string \<Rightarrow> val \<Rightarrow> liveBuffer \<Rightarrow> liveBuffer" where
  "putKey key v st = st\<lparr>dataBuffer := assign key v (dataBuffer st)\<rparr>"

text \<open>The \<^verbatim>\<open>create\<close>, \<^verbatim>\<open>update\<close> and \<^verbatim>\<open>enter\<close> handlers: hydrate, give up when the
  result is \<^verbatim>\<open>undefined\<close>, store under \<^verbatim>\<open>updated.entity.id\<close>, emit.\<close>

definition on_upsert :: "string \<Rightarrow> (string \<rightharpoonup> entityObjectDefinition) \<Rightarrow> val \<Rightarrow> liveBuffer \<Rightarrow> liveBuffer" where
  "on_upsert name app object st =
     (let updated = afterSubUpdate app object in
      if \<not> truthy updated then st
      else emit name updated (putKey (idKey (propOf updated ''entity'')) updated st))"

definition on_create :: "(string \<rightharpoonup> entityObjectDefinition) \<Rightarrow> val \<Rightarrow> liveBuffer \<Rightarrow> liveBuffer" where
  "on_create = on_upsert ''create''"

definition on_update :: "(string \<rightharpoonup> entityObjectDefinition) \<Rightarrow> val \<Rightarrow> liveBuffer \<Rightarrow> liveBuffer" where
  "on_update = on_upsert ''update''"

definition on_enter :: "(string \<rightharpoonup> entityObjectDefinition) \<Rightarrow> val \<Rightarrow> liveBuffer \<Rightarrow> liveBuffer" where
  "on_enter = on_upsert ''enter''"

text \<open>The \<^verbatim>\<open>leave\<close> and \<^verbatim>\<open>delete\<close> handlers:
  \<^verbatim>\<open>this.externalSubscription.emit('leave', this.dataBuffer[object.id]);\<close>
  \<^verbatim>\<open>delete this.dataBuffer[object.id];\<close>\<close>

definition on_leave :: "val \<Rightarrow> liveBuffer \<Rightarrow> liveBuffer" where
  "on_leave object st =
     deleteKey (idKey object) (emit ''leave'' (lookup (dataBuffer st) (idKey object)) st)"

definition on_delete :: "val \<Rightarrow> liveBuffer \<Rightarrow> liveBuffer" where
  "on_delete object st =
     deleteKey (idKey object) (emit ''delete'' (lookup (dataBuffer st) (idKey object)) st)"

text \<open>The events of the subscription, and the buffer after one event.\<close>

datatype event = Create val | Update val | Enter val | Leave val | Delete val

fun applyEvent :: "(string \<rightharpoonup> entityObjectDefinition) \<Rightarrow> event \<Rightarrow> liveBuffer \<Rightarrow> liveBuffer" where
  "applyEvent app (Create object) st = on_create app object st"
| "applyEvent app (Update object) st = on_update app object st"
| "applyEvent app (Enter object) st = on_enter app object st"
| "applyEvent app (Leave object) st = on_leave object st"
| "applyEvent app (Delete object) st = on_delete object st"

text \<open>The population of the cache once the bulk query has resolved:
  \<^verbatim>\<open>this.dataBuffer = {}\<close>, then \<^verbatim>\<open>this.dataBuffer[x.entity.id] = x\<close> for each hydrated row.
  A row that did not hydrate is \<^verbatim>\<open>undefined\<close>, and reading its \<^verbatim>\<open>entity\<close> raises.\<close>

definition populate :: "(string \<rightharpoonup> entityObjectDefinition) \<Rightarrow> val list \<Rightarrow> error + fields" where
  "populate app res =
     foldE (\<lambda>buffer x.
              if x = Undef then Inl (TypeError ''Cannot read properties of undefined'')
              else Inr (assign (idKey (propOf x ''entity'')) x buffer))
       [] (afterBufferDownload app res)"

section \<open>Example data\<close>

text \<open>A registry with one application class \<^verbatim>\<open>Task\<close>, whose constructor sets no
  property, and a chain of nested documents: a row that refers to \<open>ex_doc1\<close>, which refers
  to \<open>ex_doc2\<close>, which refers to \<open>ex_doc3\<close>.\<close>

definition ex_app :: "string \<rightharpoonup> entityObjectDefinition" where
  "ex_app = [''Task'' \<mapsto> \<lparr>classname = ''Task'', type_new = []\<rparr>]"

definition ex_doc3 :: val where
  "ex_doc3 = PObject ObjectK ''Task'' (Some ''d3'') [(''title'', Scalar (SStr ''deep''))]"

definition ex_doc2 :: val where
  "ex_doc2 = PObject ObjectK ''Task'' (Some ''d2'') [(''c'', ex_doc3)]"

definition ex_doc1 :: val where
  "ex_doc1 = PObject ObjectK ''Task'' (Some ''d1'') [(''b'', ex_doc2)]"

definition ex_row :: val where
  "ex_row = PObject ObjectK ''Task'' (Some ''r0'') [(''a'', ex_doc1)]"

text \<open>A task that has never been saved, the same task with a handle, and a live buffer
  that caches it under the identifier \<^verbatim>\<open>abc123\<close>.\<close>

definition ex_task_Y :: val where
  "ex_task_Y = Obj EntityObjectK [(''title'', Scalar (SStr ''Y''))]"

definition ex_handle :: val where
  "ex_handle = PObject ObjectK ''Task'' (Some ''abc123'') [(''title'', Scalar (SStr ''Y''))]"

definition ex_saved_task :: val where
  "ex_saved_task = Obj EntityObjectK [(''title'', Scalar (SStr ''Y'')), (''entity'', ex_handle)]"

definition ex_live :: liveBuffer where
  "ex_live = \<lparr>dataBuffer = [(''abc123'', ex_task_Y)], emitted = []\<rparr>"

definition ex_other_object :: val where
  "ex_other_object = PObject ObjectK ''Task'' (Some ''zzz999'') []"

text \<open>A task with a handle that refers to a user and to a list of tags; documents that
  hold arrays.\<close>

definition ex_user :: val where
  "ex_user = PObject UserPK ''_User'' (Some ''u1'') [(''username'', Scalar (SStr ''ann''))]"

definition ex_tag_b :: val where
  "ex_tag_b = PObject ObjectK ''Tag'' (Some ''b'') []"

definition ex_task_refs :: val where
  "ex_task_refs =
     Obj EntityObjectK
       [(''title'', Scalar (SStr ''X'')),
        (''assignee'', Obj UserK [(''entity'', ex_user), (''id'', Scalar (SStr ''u1''))]),
        (''tags'', Arr [Obj EntityObjectK [(''entity'', ex_tag_b)]]),
        (''entity'', ex_handle)]"

definition ex_arrays_row :: val where
  "ex_arrays_row =
     PObject ObjectK ''Task'' (Some ''r1'')
       [(''items'', Arr [ex_doc3]),
        (''mixed'', Arr [Scalar (SNum 1), ex_doc3]),
        (''none'', Arr [])]"

definition ex_list_doc2 :: val where
  "ex_list_doc2 = PObject ObjectK ''Task'' (Some ''l2'') [(''items'', Arr [ex_doc3])]"

definition ex_list_doc1 :: val where
  "ex_list_doc1 = PObject ObjectK ''Task'' (Some ''l1'') [(''b'', ex_list_doc2)]"

definition ex_list_row :: val where
  "ex_list_row = PObject ObjectK ''Task'' (Some ''l0'') [(''a'', ex_list_doc1)]"

text \<open>Tags for the reference-array diff. \<open>ex_tag_b_stale\<close> is another object for the
  document with the identifier of \<open>ex_tag_b\<close>.\<close>

definition ex_tag_a :: val where
  "ex_tag_a = PObject ObjectK ''Tag'' (Some ''a'') []"

definition ex_tag_b_stale :: val where
  "ex_tag_b_stale = PObject ObjectK ''Tag'' (Some ''b'') [(''label'', Scalar (SStr ''old''))]"

definition ex_tag_c :: val where
  "ex_tag_c = PObject ObjectK ''Tag'' (Some ''c'') []"

definition ex_tags_doc :: val where
  "ex_tags_doc = PObject ObjectK ''Task'' (Some ''h'') [(''tags'', Arr [ex_tag_a, ex_tag_b_stale])]"

text \<open>A new task with a scalar field that has the name of a bookkeeping attribute, and
  the document that flatten makes of it.\<close>

definition ex_reserved :: val where
  "ex_reserved = Obj EntityObjectK [(''title'', Scalar (SStr ''X'')), (''entityProperties'', Scalar (SNum 5))]"

definition ex_reserved_doc :: val where
  "ex_reserved_doc =
     PObject ObjectK ''Task'' None
       [(''classname'', Scalar (SStr ''Task'')),
        (''title'', Scalar (SStr ''X'')),
        (''entityProperties'', Arr []),
        (''entityArrayProperties'', Arr [])]"

text \<open>A document whose array has an undefined element, and a new task one of whose tags
  has never been saved.\<close>

definition ex_tags_null_doc :: val where
  "ex_tags_null_doc = PObject ObjectK ''Task'' (Some ''h'') [(''tags'', Arr [ex_tag_a, Undef])]"

definition ex_half_saved :: val where
  "ex_half_saved =
     Obj EntityObjectK
       [(''tags'', Arr [Obj EntityObjectK [(''entity'', ex_tag_a)],
                        Obj EntityObjectK [(''label'', Scalar (SStr ''new''))]])]"

text \<open>The saved task after its title has been edited, and its handle after flatten.\<close>

definition ex_edited_task :: val where
  "ex_edited_task = Obj EntityObjectK [(''title'', Scalar (SStr ''Z'')), (''entity'', ex_handle)]"

definition ex_edited_doc :: val where
  "ex_edited_doc =
     PObject ObjectK ''Task'' (Some ''abc123'')
       [(''title'', Scalar (SStr ''Z'')),
        (''entityArrayProperties'', Arr []),
        (''entityProperties'', Arr [])]"

section \<open>Basic facts\<close>

lemmas hydrate_simps =
  mapParseAttributesToEntityObject.simps mapAttribute.simps
  mapParseArrayOfAttributesToEntityObject.simps

lemma lookup_Some: "map_of fs k = Some v \<Longrightarrow> lookup fs k = v"
  by (simp add: lookup_def)

lemma lookup_None: "map_of fs k = None \<Longrightarrow> lookup fs k = Undef"
  by (simp add: lookup_def)

lemma isParseObject_truthy: "isParseObject v \<Longrightarrow> truthy v"
  by (cases v) auto

lemma isParseObject_not_Undef: "isParseObject v \<Longrightarrow> v \<noteq> Undef"
  by (cases v) auto

lemma ex_app_Task:
  "Classnames ex_app ''Task'' = Some (ClassDefinition \<lparr>classname = ''Task'', type_new = []\<rparr>)"
  by (simp add: Classnames_def ex_app_def)

lemma length_delete_distinct:
  "distinct (map fst al) \<Longrightarrow> map_of al k = Some v \<Longrightarrow> Suc (length (AList.delete k al)) = length al"
proof (induction al)
  case Nil
  then show ?case by simp
next
  case (Cons a al)
  obtain k' v' where a: "a = (k', v')" by (cases a)
  show ?case
  proof (cases "k' = k")
    case True
    with Cons.prems a have "k \<notin> fst ` set al" by auto
    then have "AList.delete k al = al" by (rule AList.delete_id)
    with True a show ?thesis by simp
  next
    case False
    with Cons a show ?thesis by simp
  qed
qed

text \<open>Flatten of the task that has never been saved.\<close>

lemma mappings_ex_task_Y:
  "mappings ''Task'' ex_task_Y =
     Inr (PObject ObjectK ''Task'' None
           [(''classname'', Scalar (SStr ''Task'')),
            (''title'', Scalar (SStr ''Y'')),
            (''entityArrayProperties'', Arr []),
            (''entityProperties'', Arr [])])"
  by (simp add: mappings_def ex_task_Y_def mappingsStep_def bindE_def set_p_def lookup_def
      mapTypescriptAttributeToParseObjectAttribute_def checkIfIndexingIsNeeded_def
      isEntityObject_def isEntityFile_def strings_def)

section \<open>Hydration depth of the bulk calls\<close>

text \<open>For contrast: what a maximum depth of 2 means for the single form. The document at
  depth 2 becomes an object that carries its handle and nothing else; its attribute \<open>c\<close>
  is not looked at.\<close>

lemma single_form_stops_at_depth_2:
  "mapParseAttributesToEntityObject ex_app ex_row 0 2 =
     Obj EntityObjectK
       [(''a'', Obj EntityObjectK
          [(''b'', Obj EntityObjectK [(''entity'', ex_doc2)]),
           (''entity'', ex_doc1)]),
        (''entity'', ex_row)]"
  by (simp add: hydrate_simps ex_row_def ex_doc1_def ex_doc2_def ex_app_Task assign_def)

text \<open>Whatever maximum depth a bulk call is given (other than 0), every row is hydrated
  by the single form with depth 0 and maximum depth 3.\<close>

lemma bulk_call_uses_single_default:
  "afterBufferDownload app rows = map (\<lambda>row. mapParseAttributesToEntityObject app row 0 3) rows"
  by (simp add: afterBufferDownload_def mapParseArrayOfAttributesToEntityObject.simps)

text \<open>
  Claim C1. For every bulk (array) hydration call with maximum depth 2, as used by the
  Live Buffer populate path and by \<^verbatim>\<open>getAll\<close>, no attribute at recursion depth 2 or deeper
  is converted into a domain object.

  The code does not do this. The array form does not hand its maximum depth on to the
  single form, which therefore runs with its default of 3. On the row \<open>ex_row\<close> the
  document \<open>ex_doc2\<close> sits at depth 2; its attribute \<open>c\<close> is walked and the document
  \<open>ex_doc3\<close> behind it is converted into a domain object, both on the populate path
  (\<open>afterBufferDownload\<close>) and in \<open>getAll\<close>.
\<close>

theorem bulk_hydration_converts_at_depth_2:
  "afterBufferDownload ex_app [ex_row] =
     [Obj EntityObjectK
        [(''a'', Obj EntityObjectK
           [(''b'', Obj EntityObjectK
              [(''c'', Obj EntityObjectK [(''entity'', ex_doc3)]),
               (''entity'', ex_doc2)]),
            (''entity'', ex_doc1)]),
         (''entity'', ex_row)]]
   \<and> getAll ex_app (Some 1) (\<lambda>limit. Some [ex_row]) = afterBufferDownload ex_app [ex_row]"
  by (simp add: afterBufferDownload_def getAll_def hydrate_simps ex_row_def ex_doc1_def
      ex_doc2_def ex_doc3_def ex_app_Task assign_def)

section \<open>Fetching by identifier\<close>

lemma fetch_cached:
  assumes "buffer \<noteq> []" and "truthy (lookup buffer ident)"
  shows "fetchObjectByIdIfNeeded app store_get (Some buffer) ident = (Inr (lookup buffer ident), [])"
  using assms by (simp add: fetchObjectByIdIfNeeded_def)

lemma fetch_miss_not_found:
  assumes "buffer \<noteq> []" and "\<not> truthy (lookup buffer ident)"
    and "store_get 0 ident = None" and "store_get 1 ident = None"
  shows "fst (fetchObjectByIdIfNeeded app store_get (Some buffer) ident) = Inr Undef"
  using assms by (simp add: fetchObjectByIdIfNeeded_def getFullObjectById_def)

lemma fetch_empty_cache_is_full_fetch:
  assumes "cache = None \<or> cache = Some []"
  shows "fetchObjectByIdIfNeeded app store_get cache ident =
           getFullObjectById app (store_get 0 ident) ident"
  using assms by (auto simp: fetchObjectByIdIfNeeded_def)

lemma getFullObjectById_not_found:
  "fst (getFullObjectById app None ident) = Inl (Error ''Error: Object not found.'')"
  by (simp add: getFullObjectById_def)

text \<open>
  Claim C2. \<^verbatim>\<open>fetchObjectByIdIfNeeded\<close> returns the cached object without a network call
  when the id is cached; otherwise it falls back to a full fetch, and a not-found failure
  of the fallback gives an absent result instead of a raised failure, for every cache
  state, including an empty or uninitialized cache.

  With a cache that holds something the code behaves so (\<open>fetch_cached\<close>,
  \<open>fetch_miss_not_found\<close>). With an empty or an uninitialized cache the full fetch is
  returned before the \<^verbatim>\<open>try\<close> is entered, and its not-found failure is raised.
\<close>

theorem fetch_with_empty_cache_raises:
  "fetchObjectByIdIfNeeded ex_app (\<lambda>n ident. None) (Some []) ''zz'' =
     (Inl (Error ''Error: Object not found.''),
      [StoreGet ''zz'', ConsoleError ''Cannot download object''])
   \<and> fetchObjectByIdIfNeeded ex_app (\<lambda>n ident. None) None ''zz'' =
     (Inl (Error ''Error: Object not found.''),
      [StoreGet ''zz'', ConsoleError ''Cannot download object''])
   \<and> fetchObjectByIdIfNeeded ex_app (\<lambda>n ident. None) (Some [(''abc123'', ex_task_Y)]) ''zz'' =
     (Inr Undef,
      [StoreGet ''zz'', ConsoleError ''Cannot download object'',
       StoreGet ''zz'', ConsoleError ''Cannot download object''])"
  by (simp add: fetchObjectByIdIfNeeded_def getFullObjectById_def lookup_def)

section \<open>Failures of destroy\<close>

text \<open>
  Claim C7. For every domain object whose handle (the \<^verbatim>\<open>entity\<close> field) is absent,
  \<^verbatim>\<open>destroy\<close> raises without any store operation; and when the store rejects the deletion
  of an object that has a handle, \<^verbatim>\<open>destroy\<close> raises the failure.
\<close>

theorem destroy_failures:
  "(propOf entityObject ''entity'' = Undef \<longrightarrow>
      destroy app store_destroy entityObject = (Inl (Thrown ''Entity not found''), []))
   \<and> (isParseObject (propOf entityObject ''entity'')
        \<and> store_destroy (propOf entityObject ''entity'') = None \<longrightarrow>
      destroy app store_destroy entityObject =
        (Inl (Error ''Error in deleting entity''),
         [StoreDestroy (propOf entityObject ''entity''), ConsoleError ''Error in deleting entity'']))"
  by (auto simp: destroy_def dest: isParseObject_truthy)

theorem destroy_failures_witness:
  "propOf ex_task_Y ''entity'' = Undef
   \<and> destroy Map.empty (\<lambda>doc. None) ex_task_Y = (Inl (Thrown ''Entity not found''), [])
   \<and> isParseObject (propOf ex_saved_task ''entity'')
   \<and> destroy Map.empty (\<lambda>doc. None) ex_saved_task =
       (Inl (Error ''Error in deleting entity''),
        [StoreDestroy ex_handle, ConsoleError ''Error in deleting entity''])"
proof -
  have a: "propOf ex_task_Y ''entity'' = Undef"
    by (simp add: ex_task_Y_def lookup_def)
  have b: "propOf ex_saved_task ''entity'' = ex_handle"
    by (simp add: ex_saved_task_def lookup_def)
  have c: "isParseObject ex_handle"
    by (simp add: ex_handle_def)
  from destroy_failures [of ex_task_Y Map.empty "\<lambda>doc. None"]
       destroy_failures [of ex_saved_task "\<lambda>doc. None" Map.empty] a b c
  show ?thesis by simp
qed

section \<open>The cache has one entry per identifier\<close>

text \<open>The cache is a JavaScript object, so it has one entry per key. In the model this
  is an invariant of the list: it holds after the population and after every event.\<close>

lemma foldE_invariant:
  assumes "P s" and "\<And>s x s'. P s \<Longrightarrow> f s x = Inr s' \<Longrightarrow> P s'"
    and "foldE f s xs = Inr s'"
  shows "P s'"
  using assms(1,3)
proof (induction xs arbitrary: s)
  case Nil
  then show ?case by simp
next
  case (Cons x xs)
  from Cons.prems(2) obtain s1 where s1: "f s x = Inr s1" and r: "foldE f s1 xs = Inr s'"
    by (cases "f s x") (simp_all add: bindE_def)
  from assms(2) [OF Cons.prems(1) s1] have "P s1" .
  from Cons.IH [OF this r] show ?case .
qed

lemma populate_distinct:
  assumes "populate app res = Inr buffer"
  shows "distinct (map fst buffer)"
proof (rule foldE_invariant [where P = "\<lambda>b. distinct (map fst b)", OF _ _ assms [unfolded populate_def]])
  show "distinct (map fst ([] :: fields))" by simp
next
  fix s :: fields and x s'
  assume "distinct (map fst s)"
    and "(if x = Undef then Inl (TypeError ''Cannot read properties of undefined'')
          else Inr (assign (idKey (propOf x ''entity'')) x s)) = Inr s'"
  then show "distinct (map fst s')"
    by (auto simp: assign_def AList.distinct_update split: if_splits)
qed

lemma applyEvent_distinct:
  assumes "distinct (map fst (dataBuffer st))"
  shows "distinct (map fst (dataBuffer (applyEvent app ev st)))"
  using assms
  by (cases ev)
     (simp_all add: on_create_def on_update_def on_enter_def on_upsert_def on_leave_def
        on_delete_def Let_def emit_def putKey_def deleteKey_def assign_def
        AList.distinct_update AList.distinct_delete)

section \<open>Leave and delete events on the Live Buffer\<close>

text \<open>
  Claim C5. While the Live Buffer is live, for every leave or delete event whose id is
  cached, the buffer first emits the event with the value cached so far, and afterwards
  the cache no longer contains the id; a cache of size N shrinks to size N - 1.

  The handler is the emission followed by the removal; at the emission the cache is
  still the one before the event.
\<close>

theorem leave_delete_cached:
  assumes d: "distinct (map fst (dataBuffer st))"
    and c: "map_of (dataBuffer st) (idKey object) = Some v"
  shows "on_leave object st = deleteKey (idKey object) (emit ''leave'' v st)
       \<and> on_delete object st = deleteKey (idKey object) (emit ''delete'' v st)
       \<and> dataBuffer (emit ''leave'' v st) = dataBuffer st
       \<and> dataBuffer (emit ''delete'' v st) = dataBuffer st
       \<and> emitted (on_leave object st) = emitted st @ [(''leave'', v)]
       \<and> emitted (on_delete object st) = emitted st @ [(''delete'', v)]
       \<and> map_of (dataBuffer (on_leave object st)) (idKey object) = None
       \<and> map_of (dataBuffer (on_delete object st)) (idKey object) = None
       \<and> Suc (length (dataBuffer (on_leave object st))) = length (dataBuffer st)
       \<and> Suc (length (dataBuffer (on_delete object st))) = length (dataBuffer st)"
  using length_delete_distinct [OF d c] lookup_Some [OF c]
  by (simp add: on_leave_def on_delete_def deleteKey_def emit_def AList.delete_conv')

theorem leave_delete_cached_witness:
  "distinct (map fst (dataBuffer ex_live))
   \<and> map_of (dataBuffer ex_live) (idKey ex_handle) = Some ex_task_Y
   \<and> emitted (on_leave ex_handle ex_live) = [(''leave'', ex_task_Y)]
   \<and> dataBuffer (on_leave ex_handle ex_live) = []
   \<and> emitted (on_delete ex_handle ex_live) = [(''delete'', ex_task_Y)]
   \<and> Suc (length (dataBuffer (on_delete ex_handle ex_live))) = length (dataBuffer ex_live)"
proof -
  have d: "distinct (map fst (dataBuffer ex_live))"
    by (simp add: ex_live_def)
  have c: "map_of (dataBuffer ex_live) (idKey ex_handle) = Some ex_task_Y"
    by (simp add: ex_live_def ex_handle_def idKey_def)
  have k: "idKey ex_handle = ''abc123''"
    by (simp add: ex_handle_def idKey_def)
  from leave_delete_cached [OF d c] d c show ?thesis
    by (simp add: k deleteKey_def emit_def ex_live_def)
qed

text \<open>
  Claim C10. While the Live Buffer is live, a leave or delete event for an id that is not
  in the cache still emits the event, with an absent (undefined) payload, and leaves the
  cache as it is.
\<close>

theorem leave_delete_uncached:
  assumes "map_of (dataBuffer st) (idKey object) = None"
  shows "on_leave object st = emit ''leave'' Undef st
       \<and> on_delete object st = emit ''delete'' Undef st
       \<and> emitted (on_leave object st) = emitted st @ [(''leave'', Undef)]
       \<and> emitted (on_delete object st) = emitted st @ [(''delete'', Undef)]
       \<and> dataBuffer (on_leave object st) = dataBuffer st
       \<and> dataBuffer (on_delete object st) = dataBuffer st"
proof -
  from assms have "idKey object \<notin> fst ` set (dataBuffer st)"
    by (simp add: map_of_eq_None_iff)
  then have "AList.delete (idKey object) (dataBuffer st) = dataBuffer st"
    by (rule AList.delete_id)
  with lookup_None [OF assms] show ?thesis
    by (simp add: on_leave_def on_delete_def deleteKey_def emit_def)
qed

theorem leave_delete_uncached_witness:
  "map_of (dataBuffer ex_live) (idKey ex_other_object) = None
   \<and> emitted (on_leave ex_other_object ex_live) = [(''leave'', Undef)]
   \<and> dataBuffer (on_leave ex_other_object ex_live) = [(''abc123'', ex_task_Y)]
   \<and> emitted (on_delete ex_other_object ex_live) = [(''delete'', Undef)]
   \<and> dataBuffer (on_delete ex_other_object ex_live) = [(''abc123'', ex_task_Y)]"
proof -
  have c: "map_of (dataBuffer ex_live) (idKey ex_other_object) = None"
    by (simp add: ex_live_def ex_other_object_def idKey_def)
  from leave_delete_uncached [OF c] c show ?thesis
    by (simp add: emit_def ex_live_def)
qed

section \<open>The bookkeeping attributes of flatten\<close>

lemma bindE_Inr: "bindE r f = Inr y \<longleftrightarrow> (\<exists>x. r = Inr x \<and> f x = Inr y)"
  by (cases r) (simp_all add: bindE_def)

lemma set_p_Inr:
  "set_p n v po = Inr d \<longleftrightarrow>
     (\<exists>k cn i as. po = PObject k cn i as \<and> d = PObject k cn i (AList.update n v as))"
  by (cases po) (auto simp: set_p_def)

lemma get_p_set_p:
  "set_p n v po = Inr d \<Longrightarrow> get_p d n' = (if n' = n then v else get_p po n')"
  by (auto simp: set_p_Inr get_p_def lookup_def AList.update_conv')

lemma mappingsStep_lists:
  assumes "mappingsStep entityObject (po, eap, ep) p = Inr (po', eap', ep')"
  shows "eap' = eap @ filter (\<lambda>p. p \<noteq> ''entity'' \<and> isArray (propOf entityObject p)
                 \<and> list_ex checkIfIndexingIsNeeded (elems (propOf entityObject p))) [p]
       \<and> ep' = ep @ filter (\<lambda>p. p \<noteq> ''entity'' \<and> propOf entityObject p \<noteq> Undef
                 \<and> \<not> isArray (propOf entityObject p)
                 \<and> checkIfIndexingIsNeeded (propOf entityObject p)) [p]"
proof (cases "p = ''entity''")
  case True
  with assms show ?thesis by (simp add: mappingsStep_def)
next
  case False
  show ?thesis
  proof (cases "propOf entityObject p = Undef")
    case True
    with assms False show ?thesis
      by (auto simp: mappingsStep_def bindE_Inr)
  next
    case notUndef: False
    show ?thesis
    proof (cases "isArray (propOf entityObject p)")
      case True
      with assms False notUndef show ?thesis
        by (auto simp: mappingsStep_def bindE_Inr)
    next
      case False
      with assms \<open>p \<noteq> ''entity''\<close> notUndef show ?thesis
        by (auto simp: mappingsStep_def bindE_Inr)
    qed
  qed
qed

lemma foldE_mappingsStep_lists:
  "foldE (mappingsStep entityObject) (po, eap, ep) ks = Inr (po', eap', ep') \<Longrightarrow>
   eap' = eap @ filter (\<lambda>p. p \<noteq> ''entity'' \<and> isArray (propOf entityObject p)
                 \<and> list_ex checkIfIndexingIsNeeded (elems (propOf entityObject p))) ks
   \<and> ep' = ep @ filter (\<lambda>p. p \<noteq> ''entity'' \<and> propOf entityObject p \<noteq> Undef
                 \<and> \<not> isArray (propOf entityObject p)
                 \<and> checkIfIndexingIsNeeded (propOf entityObject p)) ks"
proof (induction ks arbitrary: po eap ep)
  case Nil
  then show ?case by simp
next
  case (Cons k ks)
  from Cons.prems obtain po1 eap1 ep1 where
    s: "mappingsStep entityObject (po, eap, ep) k = Inr (po1, eap1, ep1)"
    and r: "foldE (mappingsStep entityObject) (po1, eap1, ep1) ks = Inr (po', eap', ep')"
    by (auto simp: bindE_Inr)
  from mappingsStep_lists [OF s] Cons.IH [OF r] show ?case
    by simp
qed

text \<open>
  Claim C9. Every call to flatten (\<^verbatim>\<open>mappings\<close>), for the create and the update case
  alike, sets two bookkeeping attributes on the document it produces:
  \<^verbatim>\<open>entityArrayProperties\<close>, the names of the array fields with at least one
  reference-shaped element, and \<^verbatim>\<open>entityProperties\<close>, the names of the single-valued
  reference-shaped fields; also when both lists are empty.

  Reference-shaped is what \<^verbatim>\<open>checkIfIndexingIsNeeded\<close> accepts. The names are those of the
  object's own fields other than the handle, in the order of the fields.
\<close>

theorem mappings_bookkeeping:
  assumes "mappings cn entityObject = Inr doc"
  shows "get_p doc ''entityArrayProperties'' =
           strings (filter (\<lambda>p. p \<noteq> ''entity'' \<and> isArray (propOf entityObject p)
                      \<and> list_ex checkIfIndexingIsNeeded (elems (propOf entityObject p)))
                    (keys entityObject))
       \<and> get_p doc ''entityProperties'' =
           strings (filter (\<lambda>p. p \<noteq> ''entity'' \<and> propOf entityObject p \<noteq> Undef
                      \<and> \<not> isArray (propOf entityObject p)
                      \<and> checkIfIndexingIsNeeded (propOf entityObject p))
                    (keys entityObject))"
proof -
  from assms obtain po0 po eap ep d1 where
    f: "foldE (mappingsStep entityObject) (po0, [], []) (keys entityObject) = Inr (po, eap, ep)"
    and s1: "set_p ''entityArrayProperties'' (strings eap) po = Inr d1"
    and s2: "set_p ''entityProperties'' (strings ep) d1 = Inr doc"
    by (auto simp: mappings_def bindE_Inr)
  from foldE_mappingsStep_lists [OF f] get_p_set_p [OF s1] get_p_set_p [OF s2]
  show ?thesis by simp
qed

lemmas flatten_eval =
  mappings_def mappingsStep_def mapArrayProperty_def bindE_def set_p_def unset_def
  addAllUnique_def addUnique_def get_p_def lookup_def sameRef_def
  mapTypescriptAttributeToParseObjectAttribute_def checkIfIndexingIsNeeded_def
  isEntityObject_def isEntityFile_def strings_def

lemma mappings_ex_task_refs:
  "mappings ''Task'' ex_task_refs =
     Inr (PObject ObjectK ''Task'' (Some ''abc123'')
           [(''title'', Scalar (SStr ''X'')),
            (''assignee'', ex_user),
            (''tags'', Arr [ex_tag_b]),
            (''entityArrayProperties'', Arr [Scalar (SStr ''tags'')]),
            (''entityProperties'', Arr [Scalar (SStr ''assignee'')])])"
  by (simp add: ex_task_refs_def ex_handle_def ex_user_def ex_tag_b_def flatten_eval)

theorem mappings_bookkeeping_witness:
  "get_p (projr (mappings ''Task'' ex_task_refs)) ''entityArrayProperties'' = Arr [Scalar (SStr ''tags'')]
   \<and> get_p (projr (mappings ''Task'' ex_task_refs)) ''entityProperties'' = Arr [Scalar (SStr ''assignee'')]
   \<and> get_p (projr (mappings ''Task'' ex_task_Y)) ''entityArrayProperties'' = Arr []
   \<and> get_p (projr (mappings ''Task'' ex_task_Y)) ''entityProperties'' = Arr []"
proof -
  have a: "get_p (projr (mappings ''Task'' ex_task_refs)) ''entityArrayProperties''
             = Arr [Scalar (SStr ''tags'')]"
    and b: "get_p (projr (mappings ''Task'' ex_task_refs)) ''entityProperties''
             = Arr [Scalar (SStr ''assignee'')]"
    by (simp_all add: mappings_ex_task_refs get_p_def lookup_def)
  have c: "get_p (projr (mappings ''Task'' ex_task_Y)) ''entityArrayProperties'' = Arr []"
    and d: "get_p (projr (mappings ''Task'' ex_task_Y)) ''entityProperties'' = Arr []"
    by (simp_all add: mappings_ex_task_Y get_p_def lookup_def)
  from mappings_bookkeeping [OF mappings_ex_task_refs] mappings_bookkeeping [OF mappings_ex_task_Y]
  show ?thesis
    by (simp only: a b c d)
qed

section \<open>Array attributes in hydration\<close>

lemma map_of_foldl_assign_other:
  "k \<notin> fst ` set kvs \<Longrightarrow>
   map_of (foldl (\<lambda>m (e, v). assign e v m) init kvs) k = map_of init k"
proof (induction kvs arbitrary: init)
  case Nil
  then show ?case by simp
next
  case (Cons a kvs)
  obtain e v where a: "a = (e, v)" by (cases a)
  with Cons.prems have "e \<noteq> k" and "k \<notin> fst ` set kvs" by auto
  with Cons.IH [of "assign e v init"] a show ?case
    by (simp add: assign_def AList.update_conv')
qed

lemma map_of_foldl_assign:
  "distinct (map fst kvs) \<Longrightarrow> map_of kvs k = Some v \<Longrightarrow>
   map_of (foldl (\<lambda>m (e, v). assign e v m) init kvs) k = Some v"
proof (induction kvs arbitrary: init)
  case Nil
  then show ?case by simp
next
  case (Cons a kvs)
  obtain e w where a: "a = (e, w)" by (cases a)
  show ?case
  proof (cases "e = k")
    case True
    with Cons.prems a have "w = v" and "k \<notin> fst ` set kvs" by auto
    with map_of_foldl_assign_other [of k kvs "assign k v init"] True a show ?thesis
      by (simp add: assign_def AList.update_conv')
  next
    case False
    with Cons.prems a have "distinct (map fst kvs)" and "map_of kvs k = Some v" by auto
    from Cons.IH [OF this, of "assign e w init"] a show ?thesis by simp
  qed
qed

lemma map_of_map_attribute:
  "map_of (map (\<lambda>(element, a). (element, f a)) as) k = map_option f (map_of as k)"
  by (induction as) auto

text \<open>What the attribute walk leaves in the property \<open>element\<close> of the result.\<close>

lemma hydrate_field:
  assumes reg: "Classnames app cn = Some (ClassDefinition d)"
    and walk: "maxDeep \<noteq> deepLevel"
    and dist: "distinct (map fst as)"
    and attr: "map_of as element = Some a"
    and ne: "element \<noteq> ''entity''"
  shows "propOf (mapParseAttributesToEntityObject app (PObject k cn i as) deepLevel maxDeep) element
           = mapAttribute app a deepLevel maxDeep"
proof -
  let ?conv = "map (\<lambda>(element, a). (element, mapAttribute app a deepLevel maxDeep)) as"
  have d': "distinct (map fst ?conv)"
    using dist by (simp add: case_prod_beta comp_def)
  have m': "map_of ?conv element = Some (mapAttribute app a deepLevel maxDeep)"
    using attr by (simp add: map_of_map_attribute)
  have "map_of (foldl (\<lambda>m (element, v). assign element v m) (type_new d) ?conv) element
          = Some (mapAttribute app a deepLevel maxDeep)"
    by (rule map_of_foldl_assign [OF d' m'])
  with reg walk ne show ?thesis
    by (simp add: mapParseAttributesToEntityObject.simps lookup_def assign_def AList.update_conv')
qed

text \<open>
  Claim C8, as amended. During the attribute walk of hydration (the depth has not reached
  the maximum depth), an array attribute is handed to the array form of hydration if and
  only if it is non-empty and its first element is a document; every empty array, and
  every array whose first element is not a document (even if later elements are), is
  copied through unchanged. The array form hydrates every element at the next depth,
  unless the next depth equals the maximum depth; then it leaves the array as it is.

  The attribute bag of a document has distinct names; the property \<^verbatim>\<open>entity\<close> of the result
  is the handle, whatever the attributes are.
\<close>

theorem hydrate_array_attribute:
  assumes "Classnames app cn = Some (ClassDefinition d)"
    and "maxDeep \<noteq> deepLevel"
    and "distinct (map fst as)"
    and "map_of as element = Some (Arr xs)"
    and "element \<noteq> ''entity''"
  shows "propOf (mapParseAttributesToEntityObject app (PObject k cn i as) deepLevel maxDeep) element =
           (if xs \<noteq> [] \<and> isParseObject (hd xs)
            then Arr (mapParseArrayOfAttributesToEntityObject app xs (deepLevel + 1) maxDeep)
            else Arr xs)
       \<and> (if maxDeep = deepLevel + 1
          then mapParseArrayOfAttributesToEntityObject app xs (deepLevel + 1) maxDeep = xs
          else \<exists>limit. mapParseArrayOfAttributesToEntityObject app xs (deepLevel + 1) maxDeep =
                 map (\<lambda>x. mapParseAttributesToEntityObject app x (deepLevel + 1) limit) xs)"
proof -
  have "propOf (mapParseAttributesToEntityObject app (PObject k cn i as) deepLevel maxDeep) element
          = mapAttribute app (Arr xs) deepLevel maxDeep"
    by (rule hydrate_field [OF assms])
  then show ?thesis
    by (auto simp: mapAttribute.simps mapParseArrayOfAttributesToEntityObject.simps)
qed

theorem hydrate_array_attribute_witness:
  "propOf (mapParseAttributesToEntityObject ex_app ex_arrays_row 0 3) ''items'' =
     Arr [Obj EntityObjectK [(''title'', Scalar (SStr ''deep'')), (''entity'', ex_doc3)]]
   \<and> propOf (mapParseAttributesToEntityObject ex_app ex_arrays_row 0 3) ''mixed'' =
     Arr [Scalar (SNum 1), ex_doc3]
   \<and> propOf (mapParseAttributesToEntityObject ex_app ex_arrays_row 0 3) ''none'' = Arr []"
proof -
  have d: "distinct (map fst [(''items'', Arr [ex_doc3]),
             (''mixed'', Arr [Scalar (SNum 1), ex_doc3]), (''none'', Arr [])])"
    by simp
  have h: "mapParseAttributesToEntityObject ex_app ex_doc3 1 3 =
      Obj EntityObjectK [(''title'', Scalar (SStr ''deep'')), (''entity'', ex_doc3)]"
    by (simp add: hydrate_simps ex_doc3_def ex_app_Task assign_def)
  have p: "isParseObject ex_doc3"
    by (simp add: ex_doc3_def)
  from hydrate_array_attribute [OF ex_app_Task _ d, of 3 0 "''items''" "[ex_doc3]" ObjectK "Some ''r1''"]
       hydrate_array_attribute [OF ex_app_Task _ d, of 3 0 "''mixed''" "[Scalar (SNum 1), ex_doc3]" ObjectK "Some ''r1''"]
       hydrate_array_attribute [OF ex_app_Task _ d, of 3 0 "''none''" "[]" ObjectK "Some ''r1''"]
       h p
  show ?thesis
    by (simp add: ex_arrays_row_def mapParseArrayOfAttributesToEntityObject.simps)
qed

text \<open>The claim as it is written fails at the depth limit. With the defaults of a
  single-object fetch (depth 0, maximum depth 3) the array \<open>items\<close> below sits in a document
  at depth 2: it is non-empty, its first element is a document, and it comes out as it
  went in, not hydrated element by element.\<close>

theorem array_of_documents_unhydrated_at_depth_limit:
  "propOf (propOf (propOf (afterSubUpdate ex_app ex_list_row) ''a'') ''b'') ''items'' = Arr [ex_doc3]
   \<and> isParseObject ex_doc3"
  by (simp add: afterSubUpdate_def hydrate_simps ex_list_row_def ex_list_doc1_def
      ex_list_doc2_def ex_doc3_def ex_app_Task assign_def lookup_def)

section \<open>The reference-array diff\<close>

lemma idRead_not_Undef: "x \<noteq> Undef \<Longrightarrow> idRead x = Inr (idOf x)"
  by (simp add: idRead_def)

lemma some_id_docs:
  "Undef \<notin> set ys \<Longrightarrow> x \<noteq> Undef \<Longrightarrow> some_id ys x = Inr (idOf x \<in> idOf ` set ys)"
  by (induction ys) (auto simp: bindE_def idRead_not_Undef)

lemma filter_not_some_docs:
  "Undef \<notin> set ys \<Longrightarrow> Undef \<notin> set xs \<Longrightarrow>
   filter_not_some ys xs = Inr (filter (\<lambda>x. idOf x \<notin> idOf ` set ys) xs)"
  by (induction xs) (auto simp: bindE_def some_id_docs)

lemma list_all_isParseObject_not_Undef:
  "list_all isParseObject xs \<Longrightarrow> Undef \<notin> set xs"
  by (induction xs) (auto dest: isParseObject_not_Undef)

lemma sameRef_idOf: "sameRef x e \<Longrightarrow> idOf x = idOf e"
  by (auto simp: sameRef_def split: if_splits)

lemma addUnique_Arr:
  assumes "lookup as name = Arr cur"
  shows "addUnique name x (PObject k cn i as) =
           Inr (PObject k cn i
                 (AList.update name (Arr (if list_ex (sameRef x) cur then cur else cur @ [x])) as))"
  using assms by (simp add: addUnique_def get_p_def)

lemma remove_p_Arr:
  assumes "lookup as name = Arr cur"
  shows "remove_p name x (PObject k cn i as) =
           Inr (PObject k cn i (AList.update name (Arr (filter (\<lambda>e. \<not> sameRef x e) cur)) as))"
  using assms by (simp add: remove_p_def get_p_def)

lemma update_frame:
  "lookup (AList.update name v as) name = v
   \<and> (\<forall>n. n \<noteq> name \<longrightarrow> map_of (AList.update name v as) n = map_of as n)
   \<and> (distinct (map fst as) \<longrightarrow> distinct (map fst (AList.update name v as)))"
  by (simp add: lookup_def AList.update_conv' AList.distinct_update)

lemma filter_notin_empty: "f ` set xs \<subseteq> S \<Longrightarrow> filter (\<lambda>x. f x \<notin> S) xs = []"
  by (auto simp: filter_empty_conv)

lemma addEach_Arr:
  "lookup as name = Arr cur \<Longrightarrow>
   \<exists>as' cur'. addEach name adds (PObject k cn i as) = Inr (PObject k cn i as')
         \<and> lookup as' name = Arr cur'
         \<and> (\<forall>n. n \<noteq> name \<longrightarrow> map_of as' n = map_of as n)
         \<and> (distinct (map fst as) \<longrightarrow> distinct (map fst as'))
         \<and> idOf ` set cur' = idOf ` set cur \<union> idOf ` set adds
         \<and> set cur' \<subseteq> set cur \<union> set adds"
proof (induction adds arbitrary: as cur)
  case Nil
  then show ?case by (simp add: addEach_def)
next
  case (Cons x adds)
  define cur1 where "cur1 = (if list_ex (sameRef x) cur then cur else cur @ [x])"
  define as1 where "as1 = AList.update name (Arr cur1) as"
  have step: "addUnique name x (PObject k cn i as) = Inr (PObject k cn i as1)"
    unfolding as1_def cur1_def by (rule addUnique_Arr [OF Cons.prems])
  have l1: "lookup as1 name = Arr cur1"
    unfolding as1_def by (simp add: update_frame)
  have "\<exists>as' cur'. addEach name adds (PObject k cn i as1) = Inr (PObject k cn i as')
         \<and> lookup as' name = Arr cur'
         \<and> (\<forall>n. n \<noteq> name \<longrightarrow> map_of as' n = map_of as1 n)
         \<and> (distinct (map fst as1) \<longrightarrow> distinct (map fst as'))
         \<and> idOf ` set cur' = idOf ` set cur1 \<union> idOf ` set adds
         \<and> set cur' \<subseteq> set cur1 \<union> set adds"
    by (rule Cons.IH [OF l1])
  then obtain as' cur' where
    r: "addEach name adds (PObject k cn i as1) = Inr (PObject k cn i as')"
    and l: "lookup as' name = Arr cur'"
    and f: "\<forall>n. n \<noteq> name \<longrightarrow> map_of as' n = map_of as1 n"
    and d: "distinct (map fst as1) \<longrightarrow> distinct (map fst as')"
    and ids: "idOf ` set cur' = idOf ` set cur1 \<union> idOf ` set adds"
    and sub: "set cur' \<subseteq> set cur1 \<union> set adds"
    by (elim exE conjE)
  have e: "addEach name (x # adds) (PObject k cn i as) = Inr (PObject k cn i as')"
    using step r by (simp add: addEach_def bindE_def)
  have ids1: "idOf ` set cur1 = idOf ` set cur \<union> {idOf x}"
    unfolding cur1_def by (auto simp: list_ex_iff dest: sameRef_idOf)
  have sub1: "set cur1 \<subseteq> set cur \<union> {x}"
    unfolding cur1_def by auto
  have f': "\<forall>n. n \<noteq> name \<longrightarrow> map_of as' n = map_of as n"
    using f unfolding as1_def by (simp add: AList.update_conv')
  have d': "distinct (map fst as) \<longrightarrow> distinct (map fst as')"
    using d unfolding as1_def by (simp add: AList.distinct_update)
  have ids': "idOf ` set cur' = idOf ` set cur \<union> idOf ` set (x # adds)"
    using ids ids1 by auto
  have sub': "set cur' \<subseteq> set cur \<union> set (x # adds)"
    using sub sub1 by auto
  from e l f' d' ids' sub' show ?case by blast
qed

lemma sameRef_refl: "sameRef x x"
  by (simp add: sameRef_def)

lemma removeEach_filter:
  "lookup as name = Arr cur \<Longrightarrow>
   \<exists>as'. removeEach name removes (PObject k cn i as) = Inr (PObject k cn i as')
         \<and> lookup as' name = Arr (filter (\<lambda>e. \<not> list_ex (\<lambda>x. sameRef x e) removes) cur)"
proof (induction removes arbitrary: as cur)
  case Nil
  then show ?case by (simp add: removeEach_def)
next
  case (Cons x removes)
  define cur1 where "cur1 = filter (\<lambda>e. \<not> sameRef x e) cur"
  define as1 where "as1 = AList.update name (Arr cur1) as"
  have step: "remove_p name x (PObject k cn i as) = Inr (PObject k cn i as1)"
    unfolding as1_def cur1_def by (rule remove_p_Arr [OF Cons.prems])
  have l1: "lookup as1 name = Arr cur1"
    unfolding as1_def by (simp add: update_frame)
  have "\<exists>as'. removeEach name removes (PObject k cn i as1) = Inr (PObject k cn i as')
         \<and> lookup as' name = Arr (filter (\<lambda>e. \<not> list_ex (\<lambda>x. sameRef x e) removes) cur1)"
    by (rule Cons.IH [OF l1])
  then obtain as' where
    r: "removeEach name removes (PObject k cn i as1) = Inr (PObject k cn i as')"
    and l: "lookup as' name = Arr (filter (\<lambda>e. \<not> list_ex (\<lambda>x. sameRef x e) removes) cur1)"
    by (elim exE conjE)
  have e: "removeEach name (x # removes) (PObject k cn i as) = Inr (PObject k cn i as')"
    using step r by (simp add: removeEach_def bindE_def)
  have l': "lookup as' name = Arr (filter (\<lambda>e. \<not> list_ex (\<lambda>x. sameRef x e) (x # removes)) cur)"
    using l unfolding cur1_def by (simp add: conj_commute)
  from e l' show ?case by blast
qed

text \<open>The identifiers left after the two loops are those of the desired array.\<close>

lemma diff_result_ids:
  assumes ids1: "idOf ` set cur1 = idOf ` set current \<union> idOf ` set adds"
    and sub1: "set cur1 \<subseteq> set current \<union> set adds"
    and adds: "adds = filter (\<lambda>x. idOf x \<notin> idOf ` set current) desired"
    and removes: "removes = filter (\<lambda>x. idOf x \<notin> idOf ` set desired) current"
    and cur': "current' = filter (\<lambda>e. \<not> list_ex (\<lambda>x. sameRef x e) removes) cur1"
  shows "idOf ` set current' = idOf ` set desired"
proof (intro set_eqI iffI)
  fix d assume "d \<in> idOf ` set current'"
  then obtain e where e: "e \<in> set cur1" and keep: "\<not> list_ex (\<lambda>x. sameRef x e) removes"
    and d: "d = idOf e"
    unfolding cur' by auto
  show "d \<in> idOf ` set desired"
  proof (rule ccontr)
    assume n: "d \<notin> idOf ` set desired"
    from e sub1 have "e \<in> set current \<or> e \<in> set adds" by auto
    then have "e \<in> set current"
    proof
      assume "e \<in> set adds"
      then have "e \<in> set desired" unfolding adds by simp
      with n d show ?thesis by simp
    qed simp
    with n d have "e \<in> set removes" unfolding removes by simp
    with sameRef_refl [of e] have "list_ex (\<lambda>x. sameRef x e) removes"
      unfolding list_ex_iff by blast
    with keep show False by simp
  qed
next
  fix d assume dD: "d \<in> idOf ` set desired"
  have "d \<in> idOf ` set cur1"
  proof (cases "d \<in> idOf ` set current")
    case True
    with ids1 show ?thesis by simp
  next
    case False
    from dD obtain x where "x \<in> set desired" and "d = idOf x" by auto
    with False have "x \<in> set adds" unfolding adds by simp
    with \<open>d = idOf x\<close> ids1 show ?thesis by auto
  qed
  then obtain e where e: "e \<in> set cur1" and d: "d = idOf e" by auto
  have "\<not> list_ex (\<lambda>x. sameRef x e) removes"
  proof
    assume "list_ex (\<lambda>x. sameRef x e) removes"
    then obtain x where x: "x \<in> set removes" and s: "sameRef x e"
      unfolding list_ex_iff by blast
    from s have "idOf x = idOf e" by (rule sameRef_idOf)
    moreover from x have "idOf x \<notin> idOf ` set desired" unfolding removes by simp
    ultimately show False using d dD by simp
  qed
  with e d show "d \<in> idOf ` set current'"
    unfolding cur' by auto
qed

text \<open>
  Claim C3, as amended. The reference-array diff is idempotent and keyed by identifier:
  for every desired array of document references and every current persisted array
  that has no null or undefined element, \<^verbatim>\<open>toAdd\<close> (the desired references whose
  identifier no current element has) and \<^verbatim>\<open>toRemove\<close> (the current elements whose
  identifier no desired reference has) are disjoint, and after applying them once, the
  diff for the same desired array is empty on both sides; two distinct objects with
  equal identifiers count as the same element.

  Both lists are given by identifiers alone, so an object stands for every object with
  its identifier. \<open>applyDiff\<close> is the pair of loops that \<^verbatim>\<open>mappings\<close> runs on the document.
\<close>

theorem reference_array_diff:
  assumes des: "list_all isParseObject desired"
    and cur: "Undef \<notin> set current"
    and get: "get_p doc property = Arr current"
  shows "\<exists>adds removes doc' current'.
           toAdd desired current = Inr adds
         \<and> adds = filter (\<lambda>x. idOf x \<notin> idOf ` set current) desired
         \<and> toRemove desired current = Inr removes
         \<and> removes = filter (\<lambda>x. idOf x \<notin> idOf ` set desired) current
         \<and> idOf ` set adds \<inter> idOf ` set removes = {}
         \<and> applyDiff property adds removes doc = Inr doc'
         \<and> get_p doc' property = Arr current'
         \<and> toAdd desired current' = Inr []
         \<and> toRemove desired current' = Inr []"
proof -
  define adds where "adds = filter (\<lambda>x. idOf x \<notin> idOf ` set current) desired"
  define removes where "removes = filter (\<lambda>x. idOf x \<notin> idOf ` set desired) current"
  have nd: "Undef \<notin> set desired"
    using des by (rule list_all_isParseObject_not_Undef)
  have ta: "toAdd desired current = Inr adds"
    unfolding toAdd_def adds_def by (rule filter_not_some_docs [OF cur nd])
  have tr: "toRemove desired current = Inr removes"
    unfolding toRemove_def removes_def by (rule filter_not_some_docs [OF nd cur])
  have disj: "idOf ` set adds \<inter> idOf ` set removes = {}"
    unfolding adds_def removes_def by auto
  from get obtain k cn i as where doc: "doc = PObject k cn i as" and l: "lookup as property = Arr current"
    by (cases doc) (auto simp: get_p_def lookup_def)
  have "\<exists>as1 cur1. addEach property adds (PObject k cn i as) = Inr (PObject k cn i as1)
         \<and> lookup as1 property = Arr cur1
         \<and> (\<forall>n. n \<noteq> property \<longrightarrow> map_of as1 n = map_of as n)
         \<and> (distinct (map fst as) \<longrightarrow> distinct (map fst as1))
         \<and> idOf ` set cur1 = idOf ` set current \<union> idOf ` set adds
         \<and> set cur1 \<subseteq> set current \<union> set adds"
    by (rule addEach_Arr [OF l])
  then obtain as1 cur1 where
    a1: "addEach property adds (PObject k cn i as) = Inr (PObject k cn i as1)"
    and l1: "lookup as1 property = Arr cur1"
    and ids1: "idOf ` set cur1 = idOf ` set current \<union> idOf ` set adds"
    and sub1: "set cur1 \<subseteq> set current \<union> set adds"
    by (elim exE conjE)
  define current' where "current' = filter (\<lambda>e. \<not> list_ex (\<lambda>x. sameRef x e) removes) cur1"
  have "\<exists>as2. removeEach property removes (PObject k cn i as1) = Inr (PObject k cn i as2)
         \<and> lookup as2 property = Arr (filter (\<lambda>e. \<not> list_ex (\<lambda>x. sameRef x e) removes) cur1)"
    by (rule removeEach_filter [OF l1])
  then obtain as2 where
    r2: "removeEach property removes (PObject k cn i as1) = Inr (PObject k cn i as2)"
    and l2: "lookup as2 property = Arr current'"
    unfolding current'_def by (elim exE conjE)
  have ap: "applyDiff property adds removes doc = Inr (PObject k cn i as2)"
    using a1 r2 doc by (simp add: applyDiff_def bindE_def)
  have g2: "get_p (PObject k cn i as2) property = Arr current'"
    using l2 by (simp add: get_p_def)
  have ids': "idOf ` set current' = idOf ` set desired"
    by (rule diff_result_ids [OF ids1 sub1 adds_def removes_def current'_def])
  have "set adds \<subseteq> set desired"
    unfolding adds_def by auto
  with sub1 have "set current' \<subseteq> set current \<union> set desired"
    unfolding current'_def by auto
  with cur nd have nc': "Undef \<notin> set current'"
    by auto
  have e1: "filter (\<lambda>x. idOf x \<notin> idOf ` set current') desired = []"
    by (rule filter_notin_empty) (simp add: ids')
  have e2: "filter (\<lambda>x. idOf x \<notin> idOf ` set desired) current' = []"
    by (rule filter_notin_empty) (simp add: ids')
  have ta': "toAdd desired current' = Inr []"
    unfolding toAdd_def using filter_not_some_docs [OF nc' nd] by (simp only: e1)
  have tr': "toRemove desired current' = Inr []"
    unfolding toRemove_def using filter_not_some_docs [OF nd nc'] by (simp only: e2)
  from ta tr disj ap g2 ta' tr' show ?thesis
    unfolding adds_def [symmetric] removes_def [symmetric] by blast
qed

theorem reference_array_diff_witness:
  "list_all isParseObject [ex_tag_b, ex_tag_c]
   \<and> Undef \<notin> set [ex_tag_a, ex_tag_b_stale]
   \<and> get_p ex_tags_doc ''tags'' = Arr [ex_tag_a, ex_tag_b_stale]
   \<and> toAdd [ex_tag_b, ex_tag_c] [ex_tag_a, ex_tag_b_stale] = Inr [ex_tag_c]
   \<and> toRemove [ex_tag_b, ex_tag_c] [ex_tag_a, ex_tag_b_stale] = Inr [ex_tag_a]
   \<and> applyDiff ''tags'' [ex_tag_c] [ex_tag_a] ex_tags_doc =
       Inr (PObject ObjectK ''Task'' (Some ''h'') [(''tags'', Arr [ex_tag_b_stale, ex_tag_c])])
   \<and> toAdd [ex_tag_b, ex_tag_c] [ex_tag_b_stale, ex_tag_c] = Inr []
   \<and> toRemove [ex_tag_b, ex_tag_c] [ex_tag_b_stale, ex_tag_c] = Inr []"
proof -
  have des: "list_all isParseObject [ex_tag_b, ex_tag_c]"
    by (simp add: ex_tag_b_def ex_tag_c_def)
  have cur: "Undef \<notin> set [ex_tag_a, ex_tag_b_stale]"
    by (simp add: ex_tag_a_def ex_tag_b_stale_def)
  have get: "get_p ex_tags_doc ''tags'' = Arr [ex_tag_a, ex_tag_b_stale]"
    by (simp add: ex_tags_doc_def get_p_def lookup_def)
  have a: "toAdd [ex_tag_b, ex_tag_c] [ex_tag_a, ex_tag_b_stale] = Inr [ex_tag_c]"
    by (simp add: toAdd_def bindE_def idRead_def ex_tag_a_def ex_tag_b_def ex_tag_b_stale_def
        ex_tag_c_def)
  have r: "toRemove [ex_tag_b, ex_tag_c] [ex_tag_a, ex_tag_b_stale] = Inr [ex_tag_a]"
    by (simp add: toRemove_def bindE_def idRead_def ex_tag_a_def ex_tag_b_def ex_tag_b_stale_def
        ex_tag_c_def)
  have ap: "applyDiff ''tags'' [ex_tag_c] [ex_tag_a] ex_tags_doc =
       Inr (PObject ObjectK ''Task'' (Some ''h'') [(''tags'', Arr [ex_tag_b_stale, ex_tag_c])])"
    by (simp add: applyDiff_def addEach_def removeEach_def addUnique_def remove_p_def bindE_def
        get_p_def lookup_def sameRef_def ex_tags_doc_def ex_tag_a_def ex_tag_b_stale_def
        ex_tag_c_def)
  have a': "toAdd [ex_tag_b, ex_tag_c] [ex_tag_b_stale, ex_tag_c] = Inr []"
    by (simp add: toAdd_def bindE_def idRead_def ex_tag_b_def ex_tag_b_stale_def ex_tag_c_def)
  have r': "toRemove [ex_tag_b, ex_tag_c] [ex_tag_b_stale, ex_tag_c] = Inr []"
    by (simp add: toRemove_def bindE_def idRead_def ex_tag_b_def ex_tag_b_stale_def ex_tag_c_def)
  from reference_array_diff [OF des cur get] des cur get a r ap a' r' show ?thesis
    by - (intro conjI; assumption)
qed

text \<open>The claim as it is written, for every current array, fails when the current array
  has a null or undefined element: the diff reads \<^verbatim>\<open>.id\<close> of it and raises, in \<^verbatim>\<open>toRemove\<close>
  and so in the array branch of \<^verbatim>\<open>mappings\<close>. Flatten itself stores such an array: an
  element that is an \<^verbatim>\<open>EntityObject\<close> with no handle is mapped to \<^verbatim>\<open>undefined\<close>
  (\<open>flatten_stores_undefined_element\<close>).\<close>

theorem diff_raises_on_undefined_element:
  "list_all isParseObject [ex_tag_b]
   \<and> get_p ex_tags_null_doc ''tags'' = Arr [ex_tag_a, Undef]
   \<and> toRemove [ex_tag_b] [ex_tag_a, Undef] = Inl (TypeError ''Cannot read properties of undefined'')
   \<and> mapArrayProperty ''tags'' [ex_tag_b] ex_tags_null_doc
         = Inl (TypeError ''Cannot read properties of undefined'')"
  by (simp add: ex_tags_null_doc_def ex_tag_a_def ex_tag_b_def get_p_def lookup_def
      toRemove_def toAdd_def mapArrayProperty_def bindE_def idRead_def)

lemma flatten_stores_undefined_element:
  "mappings ''Task'' ex_half_saved =
     Inr (PObject ObjectK ''Task'' None
           [(''classname'', Scalar (SStr ''Task'')),
            (''tags'', Arr [ex_tag_a, Undef]),
            (''entityArrayProperties'', Arr [Scalar (SStr ''tags'')]),
            (''entityProperties'', Arr [])])"
  by (simp add: ex_half_saved_def ex_tag_a_def flatten_eval)

text \<open>The array branch of \<^verbatim>\<open>mappings\<close> runs this diff whenever the document already holds
  an array for the property.\<close>

lemma mapArrayProperty_runs_diff:
  assumes "parseAttributes \<noteq> []" and "isParseObject (hd parseAttributes)"
    and "get_p parseObject property = Arr current"
  shows "mapArrayProperty property parseAttributes parseObject =
           bindE (toRemove parseAttributes current) (\<lambda>removes.
           bindE (toAdd parseAttributes current) (\<lambda>adds.
           applyDiff property adds removes parseObject))"
  using assms by (simp add: mapArrayProperty_def)

section \<open>Flatten followed by hydrate\<close>

text \<open>What one round of the loop of \<^verbatim>\<open>mappings\<close> does to the document: it stays the same
  document, only the attribute of the property at hand changes, and the attribute names
  stay distinct.\<close>

lemma unset_PObject:
  "unset q (PObject k cn i as) = Inr (PObject k cn i (AList.delete q as))"
  by (simp add: unset_def)

lemma set_p_PObject:
  "set_p q v (PObject k cn i as) = Inr (PObject k cn i (AList.update q v as))"
  by (simp add: set_p_def)

lemma removeEach_frame:
  "lookup as name = Arr cur \<Longrightarrow>
   \<exists>as' cur'. removeEach name removes (PObject k cn i as) = Inr (PObject k cn i as')
         \<and> lookup as' name = Arr cur'
         \<and> (\<forall>n. n \<noteq> name \<longrightarrow> map_of as' n = map_of as n)
         \<and> (distinct (map fst as) \<longrightarrow> distinct (map fst as'))"
proof (induction removes arbitrary: as cur)
  case Nil
  then show ?case by (simp add: removeEach_def)
next
  case (Cons x removes)
  define cur1 where "cur1 = filter (\<lambda>e. \<not> sameRef x e) cur"
  define as1 where "as1 = AList.update name (Arr cur1) as"
  have step: "remove_p name x (PObject k cn i as) = Inr (PObject k cn i as1)"
    unfolding as1_def cur1_def by (rule remove_p_Arr [OF Cons.prems])
  have l1: "lookup as1 name = Arr cur1"
    unfolding as1_def by (simp add: update_frame)
  have "\<exists>as' cur'. removeEach name removes (PObject k cn i as1) = Inr (PObject k cn i as')
         \<and> lookup as' name = Arr cur'
         \<and> (\<forall>n. n \<noteq> name \<longrightarrow> map_of as' n = map_of as1 n)
         \<and> (distinct (map fst as1) \<longrightarrow> distinct (map fst as'))"
    by (rule Cons.IH [OF l1])
  then obtain as' cur' where
    r: "removeEach name removes (PObject k cn i as1) = Inr (PObject k cn i as')"
    and l: "lookup as' name = Arr cur'"
    and f: "\<forall>n. n \<noteq> name \<longrightarrow> map_of as' n = map_of as1 n"
    and d: "distinct (map fst as1) \<longrightarrow> distinct (map fst as')"
    by (elim exE conjE)
  have e: "removeEach name (x # removes) (PObject k cn i as) = Inr (PObject k cn i as')"
    using step r by (simp add: removeEach_def bindE_def)
  have f': "\<forall>n. n \<noteq> name \<longrightarrow> map_of as' n = map_of as n"
    using f unfolding as1_def by (simp add: AList.update_conv')
  have d': "distinct (map fst as) \<longrightarrow> distinct (map fst as')"
    using d unfolding as1_def by (simp add: AList.distinct_update)
  from e l f' d' show ?case by blast
qed

lemma addUnique_cases:
  "addUnique name x (PObject k cn i as) = Inr rejected
   \<or> (\<exists>v. addUnique name x (PObject k cn i as) = Inr (PObject k cn i (AList.update name v as)))"
  by (cases "get_p (PObject k cn i as) name") (auto simp: addUnique_def)

lemma rejected_falsy: "\<not> truthy rejected"
  by (simp add: rejected_def)

lemma foldE_addUnique_falsy:
  "\<not> truthy d \<Longrightarrow> foldE (\<lambda>d x. if truthy d then addUnique name x d else Inr d) d xs = Inr d"
  by (induction xs) (simp_all add: bindE_def)

lemma foldE_addUnique_frame:
  "\<exists>res. foldE (\<lambda>d x. if truthy d then addUnique name x d else Inr d) (PObject k cn i as) xs = Inr res
     \<and> (\<not> truthy res
         \<or> (\<exists>as'. res = PObject k cn i as'
               \<and> (\<forall>n. n \<noteq> name \<longrightarrow> map_of as' n = map_of as n)
               \<and> (distinct (map fst as) \<longrightarrow> distinct (map fst as'))))"
proof (induction xs arbitrary: as)
  case Nil
  show ?case by simp
next
  case (Cons x xs)
  from addUnique_cases [of name x k cn i as] show ?case
  proof
    assume rej: "addUnique name x (PObject k cn i as) = Inr rejected"
    have "foldE (\<lambda>d x. if truthy d then addUnique name x d else Inr d) (PObject k cn i as) (x # xs)
            = Inr rejected"
      using rej foldE_addUnique_falsy [OF rejected_falsy, of name xs] by (simp add: bindE_def)
    with rejected_falsy show ?thesis by blast
  next
    assume "\<exists>v. addUnique name x (PObject k cn i as) = Inr (PObject k cn i (AList.update name v as))"
    then obtain v where
      step: "addUnique name x (PObject k cn i as) = Inr (PObject k cn i (AList.update name v as))"
      by blast
    define as1 where "as1 = AList.update name v as"
    have "\<exists>res. foldE (\<lambda>d x. if truthy d then addUnique name x d else Inr d) (PObject k cn i as1) xs = Inr res
     \<and> (\<not> truthy res
         \<or> (\<exists>as'. res = PObject k cn i as'
               \<and> (\<forall>n. n \<noteq> name \<longrightarrow> map_of as' n = map_of as1 n)
               \<and> (distinct (map fst as1) \<longrightarrow> distinct (map fst as'))))"
      by (rule Cons.IH)
    then obtain res where
      r: "foldE (\<lambda>d x. if truthy d then addUnique name x d else Inr d) (PObject k cn i as1) xs = Inr res"
      and c: "\<not> truthy res
         \<or> (\<exists>as'. res = PObject k cn i as'
               \<and> (\<forall>n. n \<noteq> name \<longrightarrow> map_of as' n = map_of as1 n)
               \<and> (distinct (map fst as1) \<longrightarrow> distinct (map fst as')))"
      by (elim exE conjE)
    have e: "foldE (\<lambda>d x. if truthy d then addUnique name x d else Inr d) (PObject k cn i as) (x # xs)
               = Inr res"
      using step r unfolding as1_def by (simp add: bindE_def)
    from c have "\<not> truthy res
         \<or> (\<exists>as'. res = PObject k cn i as'
               \<and> (\<forall>n. n \<noteq> name \<longrightarrow> map_of as' n = map_of as n)
               \<and> (distinct (map fst as) \<longrightarrow> distinct (map fst as')))"
      unfolding as1_def by (auto simp: AList.update_conv' AList.distinct_update)
    with e show ?thesis by blast
  qed
qed

lemma mapArrayProperty_frame:
  assumes "mapArrayProperty q pas (PObject k cn i as) = Inr po'"
  shows "\<exists>as'. po' = PObject k cn i as'
           \<and> (\<forall>n. n \<noteq> q \<longrightarrow> map_of as' n = map_of as n)
           \<and> (distinct (map fst as) \<longrightarrow> distinct (map fst as'))"
proof (cases "pas \<noteq> [] \<and> isParseObject (hd pas)")
  case False
  with assms have "po' = PObject k cn i (AList.update q (Arr pas) as)"
    by (auto simp: mapArrayProperty_def set_p_PObject)
  then show ?thesis
    by (simp add: AList.update_conv' AList.distinct_update)
next
  case ref: True
  show ?thesis
  proof (cases "truthy (get_p (PObject k cn i as) q)")
    case False
    from foldE_addUnique_frame [of q k cn i as pas] obtain res where
      r: "addAllUnique q pas (PObject k cn i as) = Inr res"
      and c: "\<not> truthy res
         \<or> (\<exists>as'. res = PObject k cn i as'
               \<and> (\<forall>n. n \<noteq> q \<longrightarrow> map_of as' n = map_of as n)
               \<and> (distinct (map fst as) \<longrightarrow> distinct (map fst as')))"
      unfolding addAllUnique_def by auto
    from assms ref False r have po': "po' = (if truthy res then res else PObject k cn i as)"
      by (simp add: mapArrayProperty_def bindE_def)
    show ?thesis
    proof (cases "truthy res")
      case True
      with c po' show ?thesis by auto
    next
      case False
      with po' show ?thesis by simp
    qed
  next
    case True
    with assms ref have arr: "isArray (get_p (PObject k cn i as) q)"
      by (auto simp: mapArrayProperty_def split: if_splits)
    then obtain cur where l: "lookup as q = Arr cur"
      by (cases "lookup as q") (auto simp: get_p_def)
    from assms ref True arr l obtain removes adds where
      ap: "applyDiff q adds removes (PObject k cn i as) = Inr po'"
      by (auto simp: mapArrayProperty_def bindE_Inr get_p_def)
    then obtain po1 where a1: "addEach q adds (PObject k cn i as) = Inr po1"
      and r1: "removeEach q removes po1 = Inr po'"
      by (auto simp: applyDiff_def bindE_Inr)
    have "\<exists>as' cur'. addEach q adds (PObject k cn i as) = Inr (PObject k cn i as')
         \<and> lookup as' q = Arr cur'
         \<and> (\<forall>n. n \<noteq> q \<longrightarrow> map_of as' n = map_of as n)
         \<and> (distinct (map fst as) \<longrightarrow> distinct (map fst as'))
         \<and> idOf ` set cur' = idOf ` set cur \<union> idOf ` set adds
         \<and> set cur' \<subseteq> set cur \<union> set adds"
      by (rule addEach_Arr [OF l])
    then obtain as1 cur1 where
      a1': "addEach q adds (PObject k cn i as) = Inr (PObject k cn i as1)"
      and l1: "lookup as1 q = Arr cur1"
      and f1: "\<forall>n. n \<noteq> q \<longrightarrow> map_of as1 n = map_of as n"
      and d1: "distinct (map fst as) \<longrightarrow> distinct (map fst as1)"
      by (elim exE conjE)
    from a1 a1' have po1: "po1 = PObject k cn i as1" by simp
    have "\<exists>as' cur'. removeEach q removes (PObject k cn i as1) = Inr (PObject k cn i as')
         \<and> lookup as' q = Arr cur'
         \<and> (\<forall>n. n \<noteq> q \<longrightarrow> map_of as' n = map_of as1 n)
         \<and> (distinct (map fst as1) \<longrightarrow> distinct (map fst as'))"
      by (rule removeEach_frame [OF l1])
    then obtain as2 where
      r2: "removeEach q removes (PObject k cn i as1) = Inr (PObject k cn i as2)"
      and f2: "\<forall>n. n \<noteq> q \<longrightarrow> map_of as2 n = map_of as1 n"
      and d2: "distinct (map fst as1) \<longrightarrow> distinct (map fst as2)"
      by (elim exE conjE)
    from r1 r2 po1 have "po' = PObject k cn i as2" by simp
    with f1 f2 d1 d2 show ?thesis by auto
  qed
qed


lemma mappingsStep_frame:
  assumes "mappingsStep entityObject (PObject k cn i as, eap, ep) q = Inr (po', eap', ep')"
  shows "\<exists>as'. po' = PObject k cn i as'
           \<and> (\<forall>n. n \<noteq> q \<longrightarrow> map_of as' n = map_of as n)
           \<and> (distinct (map fst as) \<longrightarrow> distinct (map fst as'))"
proof (cases "q = ''entity''")
  case True
  with assms show ?thesis by (auto simp: mappingsStep_def)
next
  case ne: False
  show ?thesis
  proof (cases "propOf entityObject q = Undef")
    case True
    with assms ne have "po' = PObject k cn i (AList.delete q as)"
      by (auto simp: mappingsStep_def bindE_def unset_PObject)
    then show ?thesis
      by (simp add: AList.delete_conv' AList.distinct_delete)
  next
    case notUndef: False
    show ?thesis
    proof (cases "isArray (propOf entityObject q)")
      case True
      with assms ne notUndef have
        "mapArrayProperty q (map mapTypescriptAttributeToParseObjectAttribute
            (elems (propOf entityObject q))) (PObject k cn i as) = Inr po'"
        by (auto simp: mappingsStep_def bindE_Inr)
      then show ?thesis by (rule mapArrayProperty_frame)
    next
      case False
      with assms ne notUndef have
        "po' = PObject k cn i (AList.update q
            (mapTypescriptAttributeToParseObjectAttribute (propOf entityObject q)) as)"
        by (auto simp: mappingsStep_def bindE_Inr set_p_PObject)
      then show ?thesis
        by (simp add: AList.update_conv' AList.distinct_update)
    qed
  qed
qed

lemma mappingsStep_scalar:
  assumes "propOf entityObject p = Scalar s" and "p \<noteq> ''entity''"
  shows "mappingsStep entityObject (PObject k cn i as, eap, ep) p =
           Inr (PObject k cn i (AList.update p (Scalar s) as), eap, ep)"
  using assms
  by (simp add: mappingsStep_def bindE_def set_p_PObject
      mapTypescriptAttributeToParseObjectAttribute_def checkIfIndexingIsNeeded_def
      isEntityObject_def isEntityFile_def)

lemma mapArrayProperty_total:
  assumes "lookup as q = Undef"
  shows "\<exists>po'. mapArrayProperty q pas (PObject k cn i as) = Inr po'"
proof -
  from foldE_addUnique_frame [of q k cn i as pas] obtain res where
    "addAllUnique q pas (PObject k cn i as) = Inr res"
    unfolding addAllUnique_def by auto
  with assms show ?thesis
    by (simp add: mapArrayProperty_def get_p_def bindE_def set_p_PObject)
qed

lemma mappingsStep_total:
  assumes "lookup as q = Undef \<or> \<not> isArray (propOf entityObject q)"
  shows "\<exists>st'. mappingsStep entityObject (PObject k cn i as, eap, ep) q = Inr st'"
proof (cases "q = ''entity''")
  case True
  then show ?thesis by (simp add: mappingsStep_def)
next
  case ne: False
  show ?thesis
  proof (cases "propOf entityObject q = Undef")
    case True
    with ne show ?thesis
      by (simp add: mappingsStep_def bindE_def unset_PObject)
  next
    case notUndef: False
    show ?thesis
    proof (cases "isArray (propOf entityObject q)")
      case True
      with assms have "lookup as q = Undef" by simp
      from mapArrayProperty_total [OF this] obtain po' where
        "mapArrayProperty q (map mapTypescriptAttributeToParseObjectAttribute
            (elems (propOf entityObject q))) (PObject k cn i as) = Inr po'"
        by blast
      with ne notUndef True show ?thesis
        by (simp add: mappingsStep_def bindE_def)
    next
      case False
      with ne notUndef show ?thesis
        by (simp add: mappingsStep_def bindE_def set_p_PObject)
    qed
  qed
qed

lemma lookup_cong: "map_of as' n = map_of as n \<Longrightarrow> lookup as' n = lookup as n"
  by (simp add: lookup_def)

lemma foldE_mappingsStep_new:
  assumes "distinct ks"
    and "\<forall>q \<in> set ks. lookup as q = Undef \<or> \<not> isArray (propOf entityObject q)"
    and "distinct (map fst as)"
  shows "\<exists>as' eap' ep'.
           foldE (mappingsStep entityObject) (PObject k cn i as, eap, ep) ks
             = Inr (PObject k cn i as', eap', ep')
         \<and> distinct (map fst as')
         \<and> (\<forall>n. n \<notin> set ks \<longrightarrow> map_of as' n = map_of as n)
         \<and> (\<forall>p s. p \<in> set ks \<and> p \<noteq> ''entity'' \<and> propOf entityObject p = Scalar s
                \<longrightarrow> lookup as' p = Scalar s)"
  using assms
proof (induction ks arbitrary: as eap ep)
  case Nil
  then show ?case by simp
next
  case (Cons q ks)
  from Cons.prems have dq: "q \<notin> set ks" and dks: "distinct ks" by simp_all
  from Cons.prems(2) have "lookup as q = Undef \<or> \<not> isArray (propOf entityObject q)" by simp
  from mappingsStep_total [OF this, of k cn i eap ep] obtain po1 eap1 ep1 where
    step: "mappingsStep entityObject (PObject k cn i as, eap, ep) q = Inr (po1, eap1, ep1)"
    by (cases rule: exE) auto
  from mappingsStep_frame [OF step] obtain as1 where
    po1: "po1 = PObject k cn i as1"
    and f1: "\<forall>n. n \<noteq> q \<longrightarrow> map_of as1 n = map_of as n"
    and d1: "distinct (map fst as1)"
    using Cons.prems(3) by blast
  have c1: "\<forall>q' \<in> set ks. lookup as1 q' = Undef \<or> \<not> isArray (propOf entityObject q')"
  proof
    fix q' assume q': "q' \<in> set ks"
    with dq have "q' \<noteq> q" by auto
    with f1 have "map_of as1 q' = map_of as q'" by blast
    then have "lookup as1 q' = lookup as q'" by (rule lookup_cong)
    with Cons.prems(2) q' show "lookup as1 q' = Undef \<or> \<not> isArray (propOf entityObject q')"
      by simp
  qed
  have "\<exists>as' eap' ep'.
           foldE (mappingsStep entityObject) (PObject k cn i as1, eap1, ep1) ks
             = Inr (PObject k cn i as', eap', ep')
         \<and> distinct (map fst as')
         \<and> (\<forall>n. n \<notin> set ks \<longrightarrow> map_of as' n = map_of as1 n)
         \<and> (\<forall>p s. p \<in> set ks \<and> p \<noteq> ''entity'' \<and> propOf entityObject p = Scalar s
                \<longrightarrow> lookup as' p = Scalar s)"
    by (rule Cons.IH [OF dks c1 d1])
  then obtain as' eap' ep' where
    r: "foldE (mappingsStep entityObject) (PObject k cn i as1, eap1, ep1) ks
             = Inr (PObject k cn i as', eap', ep')"
    and d': "distinct (map fst as')"
    and f': "\<forall>n. n \<notin> set ks \<longrightarrow> map_of as' n = map_of as1 n"
    and s': "\<forall>p s. p \<in> set ks \<and> p \<noteq> ''entity'' \<and> propOf entityObject p = Scalar s
                \<longrightarrow> lookup as' p = Scalar s"
    by (elim exE conjE)
  have e: "foldE (mappingsStep entityObject) (PObject k cn i as, eap, ep) (q # ks)
             = Inr (PObject k cn i as', eap', ep')"
    using step r po1 by (simp add: bindE_def)
  have f: "\<forall>n. n \<notin> set (q # ks) \<longrightarrow> map_of as' n = map_of as n"
    using f' f1 by simp
  have s: "\<forall>p s. p \<in> set (q # ks) \<and> p \<noteq> ''entity'' \<and> propOf entityObject p = Scalar s
                \<longrightarrow> lookup as' p = Scalar s"
  proof (intro allI impI)
    fix p s
    assume a: "p \<in> set (q # ks) \<and> p \<noteq> ''entity'' \<and> propOf entityObject p = Scalar s"
    show "lookup as' p = Scalar s"
    proof (cases "p \<in> set ks")
      case True
      with s' a show ?thesis by blast
    next
      case False
      with a have pq: "p = q" by simp
      from a pq have "mappingsStep entityObject (PObject k cn i as, eap, ep) q =
           Inr (PObject k cn i (AList.update q (Scalar s) as), eap, ep)"
        by (simp add: mappingsStep_scalar)
      with step po1 have "as1 = AList.update q (Scalar s) as" by simp
      then have "lookup as1 q = Scalar s" by (simp add: update_frame)
      moreover from f' False have "map_of as' p = map_of as1 p" by blast
      then have "lookup as' p = lookup as1 p" by (rule lookup_cong)
      ultimately show ?thesis using pq by simp
    qed
  qed
  from e d' f s show ?case by blast
qed


lemma propOf_in_keys: "propOf entityObject p \<noteq> Undef \<Longrightarrow> p \<in> set (keys entityObject)"
  by (cases entityObject) (auto simp: lookup_def split: option.splits dest: map_of_SomeD intro: rev_image_eqI)

lemma lookup_eq_Scalar: "lookup as p = Scalar s \<Longrightarrow> map_of as p = Some (Scalar s)"
  by (auto simp: lookup_def split: option.splits)

lemma mapAttribute_Scalar: "mapAttribute app (Scalar s) deepLevel maxDeep = Scalar s"
  by (simp add: mapAttribute.simps)

text \<open>
  Claim C6, as amended. For every domain object \<open>o\<close> with no prior handle, of a class
  registered with a constructor, flatten (\<^verbatim>\<open>mappings\<close>) produces a new document tagged with
  the class name, and hydrating that document recovers, with its original value, every
  scalar field of \<open>o\<close> that is not named \<^verbatim>\<open>entityProperties\<close> or
  \<^verbatim>\<open>entityArrayProperties\<close>.

  The object is one of the declared type: its property names are distinct and its
  \<^verbatim>\<open>classname\<close>, declared a string, is not an array. Hydration is the single form with its
  defaults, depth 0 and maximum depth 3.
\<close>

theorem flatten_hydrate_scalar_roundtrip:
  assumes nohandle: "propOf entityObject ''entity'' = Undef"
    and dist: "distinct (keys entityObject)"
    and typed: "\<not> isArray (propOf entityObject ''classname'')"
    and reg: "Classnames app cn = Some (ClassDefinition d)"
  shows "\<exists>doc. mappings cn entityObject = Inr doc
           \<and> className doc = Some cn
           \<and> idOf doc = Undef
           \<and> (\<forall>p s. propOf entityObject p = Scalar s
                     \<and> p \<noteq> ''entityProperties'' \<and> p \<noteq> ''entityArrayProperties''
                  \<longrightarrow> propOf (mapParseAttributesToEntityObject app doc 0 3) p = Scalar s)"
proof -
  define as0 where "as0 = [(''classname'', Scalar (SStr cn))]"
  have cond: "\<forall>q \<in> set (keys entityObject). lookup as0 q = Undef \<or> \<not> isArray (propOf entityObject q)"
    using typed unfolding as0_def by (auto simp: lookup_def)
  have d0: "distinct (map fst as0)"
    unfolding as0_def by simp
  have "\<exists>as' eap' ep'.
           foldE (mappingsStep entityObject) (PObject ObjectK cn None as0, [], []) (keys entityObject)
             = Inr (PObject ObjectK cn None as', eap', ep')
         \<and> distinct (map fst as')
         \<and> (\<forall>n. n \<notin> set (keys entityObject) \<longrightarrow> map_of as' n = map_of as0 n)
         \<and> (\<forall>p s. p \<in> set (keys entityObject) \<and> p \<noteq> ''entity'' \<and> propOf entityObject p = Scalar s
                \<longrightarrow> lookup as' p = Scalar s)"
    by (rule foldE_mappingsStep_new [OF dist cond d0])
  then obtain as' eap' ep' where
    fold: "foldE (mappingsStep entityObject) (PObject ObjectK cn None as0, [], []) (keys entityObject)
             = Inr (PObject ObjectK cn None as', eap', ep')"
    and d': "distinct (map fst as')"
    and s': "\<forall>p s. p \<in> set (keys entityObject) \<and> p \<noteq> ''entity'' \<and> propOf entityObject p = Scalar s
                \<longrightarrow> lookup as' p = Scalar s"
    by (elim exE conjE)
  define asF where "asF = AList.update ''entityProperties'' (strings ep')
                            (AList.update ''entityArrayProperties'' (strings eap') as')"
  define doc where "doc = PObject ObjectK cn None asF"
  have m: "mappings cn entityObject = Inr doc"
    using nohandle fold unfolding doc_def asF_def as0_def
    by (simp add: mappings_def bindE_def set_p_PObject)
  have dF: "distinct (map fst asF)"
    unfolding asF_def using d' by (simp add: AList.distinct_update)
  have rt: "\<forall>p s. propOf entityObject p = Scalar s
                     \<and> p \<noteq> ''entityProperties'' \<and> p \<noteq> ''entityArrayProperties''
                  \<longrightarrow> propOf (mapParseAttributesToEntityObject app doc 0 3) p = Scalar s"
  proof (intro allI impI)
    fix p s
    assume a: "propOf entityObject p = Scalar s
                 \<and> p \<noteq> ''entityProperties'' \<and> p \<noteq> ''entityArrayProperties''"
    then have v: "propOf entityObject p = Scalar s" by simp
    then have k: "p \<in> set (keys entityObject)" by (simp add: propOf_in_keys)
    from v nohandle have ne: "p \<noteq> ''entity''" by auto
    from s' k ne v have "lookup as' p = Scalar s" by blast
    then have "map_of as' p = Some (Scalar s)" by (rule lookup_eq_Scalar)
    with a have mF: "map_of asF p = Some (Scalar s)"
      unfolding asF_def by (simp add: AList.update_conv')
    have w: "(3::int) \<noteq> 0" by simp
    from hydrate_field [OF reg w dF mF ne, of ObjectK None]
    show "propOf (mapParseAttributesToEntityObject app doc 0 3) p = Scalar s"
      unfolding doc_def by (simp add: mapAttribute_Scalar)
  qed
  have "className doc = Some cn" and "idOf doc = Undef"
    unfolding doc_def by simp_all
  with m rt show ?thesis by blast
qed

text \<open>The claim as it is written fails for a scalar field with the name of a bookkeeping
  attribute: the last two \<^verbatim>\<open>set\<close> calls of \<^verbatim>\<open>mappings\<close> overwrite it, and hydration gives
  back the bookkeeping list.\<close>

theorem reserved_scalar_field_not_recovered:
  "propOf ex_reserved ''entity'' = Undef
   \<and> propOf ex_reserved ''entityProperties'' = Scalar (SNum 5)
   \<and> mappings ''Task'' ex_reserved = Inr ex_reserved_doc
   \<and> propOf (mapParseAttributesToEntityObject ex_app ex_reserved_doc 0 3) ''entityProperties'' = Arr []"
  by (simp add: ex_reserved_def ex_reserved_doc_def flatten_eval hydrate_simps ex_app_Task assign_def)

theorem flatten_hydrate_scalar_roundtrip_witness:
  "propOf ex_reserved ''entity'' = Undef
   \<and> distinct (keys ex_reserved)
   \<and> \<not> isArray (propOf ex_reserved ''classname'')
   \<and> mappings ''Task'' ex_reserved = Inr ex_reserved_doc
   \<and> className ex_reserved_doc = Some ''Task''
   \<and> idOf ex_reserved_doc = Undef
   \<and> propOf ex_reserved ''title'' = Scalar (SStr ''X'')
   \<and> propOf (mapParseAttributesToEntityObject ex_app ex_reserved_doc 0 3) ''title'' = Scalar (SStr ''X'')"
proof -
  have a: "propOf ex_reserved ''entity'' = Undef"
    and b: "distinct (keys ex_reserved)"
    and c: "\<not> isArray (propOf ex_reserved ''classname'')"
    and t: "propOf ex_reserved ''title'' = Scalar (SStr ''X'')"
    by (simp_all add: ex_reserved_def lookup_def)
  have m: "mappings ''Task'' ex_reserved = Inr ex_reserved_doc"
    by (simp add: ex_reserved_def ex_reserved_doc_def flatten_eval)
  from flatten_hydrate_scalar_roundtrip [OF a b c ex_app_Task] m t
  have "className ex_reserved_doc = Some ''Task'' \<and> idOf ex_reserved_doc = Undef
        \<and> propOf (mapParseAttributesToEntityObject ex_app ex_reserved_doc 0 3) ''title'' = Scalar (SStr ''X'')"
    by auto
  with a b c m t show ?thesis by simp
qed

section \<open>A rejected save\<close>

lemma mappingsStep_not_document:
  assumes "\<forall>k c i as. po \<noteq> PObject k c i as"
    and "mappingsStep entityObject (po, eap, ep) q = Inr st'"
  shows "st' = (po, eap, ep)"
proof (cases "q = ''entity''")
  case True
  with assms(2) show ?thesis by (simp add: mappingsStep_def)
next
  case ne: False
  have s: "\<And>n v. set_p n v po = Inl notAFunction"
    using assms(1) by (cases po) (auto simp: set_p_def)
  have u: "\<And>n. unset n po = Inl notAFunction"
    using assms(1) by (cases po) (auto simp: unset_def)
  have g: "\<And>n. get_p po n = Undef"
    using assms(1) by (cases po) (auto simp: get_p_def lookup_def)
  have a: "\<And>n xs. addAllUnique n xs po = Inl notAFunction"
    using assms(1) by (cases po) (auto simp: addAllUnique_def)
  have m: "\<And>n xs. mapArrayProperty n xs po = Inl notAFunction"
    by (simp add: mapArrayProperty_def s g a bindE_def)
  from assms(2) ne show ?thesis
    by (simp add: mappingsStep_def s u m bindE_def split: if_splits)
qed

lemma foldE_mappingsStep_not_document:
  assumes "\<forall>k c i as. po \<noteq> PObject k c i as"
    and "foldE (mappingsStep entityObject) (po, eap, ep) ks = Inr st'"
  shows "st' = (po, eap, ep)"
  using assms(2)
proof (induction ks)
  case Nil
  then show ?case by simp
next
  case (Cons q ks)
  from Cons.prems obtain st1 where s: "mappingsStep entityObject (po, eap, ep) q = Inr st1"
    and r: "foldE (mappingsStep entityObject) st1 ks = Inr st'"
    by (auto simp: bindE_Inr)
  from mappingsStep_not_document [OF assms(1) s] have "st1 = (po, eap, ep)" .
  with r Cons.IH show ?case by simp
qed

lemma foldE_mappingsStep_document:
  assumes "foldE (mappingsStep entityObject) (PObject k c i as, eap, ep) ks = Inr (po', eap', ep')"
  shows "\<exists>as'. po' = PObject k c i as'"
proof -
  have "case (po', eap', ep') of (po, x, y) \<Rightarrow> \<exists>as'. po = PObject k c i as'"
  proof (rule foldE_invariant [where P = "\<lambda>st. case st of (po, x, y) \<Rightarrow> \<exists>as'. po = PObject k c i as'", OF _ _ assms])
    show "case (PObject k c i as, eap, ep) of (po, x, y) \<Rightarrow> \<exists>as'. po = PObject k c i as'"
      by simp
  next
    fix s :: "val \<times> string list \<times> string list" and q s'
    assume p: "case s of (po, x, y) \<Rightarrow> \<exists>as'. po = PObject k c i as'"
      and st: "mappingsStep entityObject s q = Inr s'"
    obtain po x y where s: "s = (po, x, y)" by (cases s)
    obtain po1 x1 y1 where s': "s' = (po1, x1, y1)" by (cases s')
    from p s obtain as0 where "po = PObject k c i as0" by auto
    with st s s' have "mappingsStep entityObject (PObject k c i as0, x, y) q = Inr (po1, x1, y1)"
      by simp
    from mappingsStep_frame [OF this] s'
    show "case s' of (po, x, y) \<Rightarrow> \<exists>as'. po = PObject k c i as'"
      by auto
  qed
  then show ?thesis by simp
qed

text \<open>An update keeps the document: flatten of an object with a handle gives a document
  only when the handle is a document, and then the same one, with another attribute bag.\<close>

lemma mappings_keeps_handle:
  assumes h: "propOf entityObject ''entity'' \<noteq> Undef"
    and m: "mappings cn entityObject = Inr doc"
  shows "\<exists>k c i as as'. propOf entityObject ''entity'' = PObject k c i as \<and> doc = PObject k c i as'"
proof -
  from m h obtain po eap ep d1 where
    f: "foldE (mappingsStep entityObject) (propOf entityObject ''entity'', [], []) (keys entityObject)
          = Inr (po, eap, ep)"
    and s1: "set_p ''entityArrayProperties'' (strings eap) po = Inr d1"
    and s2: "set_p ''entityProperties'' (strings ep) d1 = Inr doc"
    by (auto simp: mappings_def bindE_Inr)
  from s1 obtain k c i as1 where po: "po = PObject k c i as1"
    and d1: "d1 = PObject k c i (AList.update ''entityArrayProperties'' (strings eap) as1)"
    by (auto simp: set_p_Inr)
  from s2 d1 obtain as' where doc: "doc = PObject k c i as'"
    by (auto simp: set_p_Inr)
  show ?thesis
  proof (cases "\<exists>k0 c0 i0 as0. propOf entityObject ''entity'' = PObject k0 c0 i0 as0")
    case True
    then obtain k0 c0 i0 as0 where e: "propOf entityObject ''entity'' = PObject k0 c0 i0 as0"
      by blast
    from f e have "foldE (mappingsStep entityObject) (PObject k0 c0 i0 as0, [], []) (keys entityObject)
          = Inr (po, eap, ep)" by simp
    from foldE_mappingsStep_document [OF this] po have "k0 = k \<and> c0 = c \<and> i0 = i" by auto
    with e doc show ?thesis by blast
  next
    case False
    then have "\<forall>k c i as. propOf entityObject ''entity'' \<noteq> PObject k c i as" by blast
    from foldE_mappingsStep_not_document [OF this f] have "po = propOf entityObject ''entity''"
      by simp
    with po have "propOf entityObject ''entity'' = PObject k c i as1" by simp
    with False show ?thesis by blast
  qed
qed

lemma keys_setProp_present:
  "propOf entityObject name \<noteq> Undef \<Longrightarrow> keys (setProp name v entityObject) = keys entityObject"
proof (cases entityObject)
  case (Obj k fs)
  assume "propOf entityObject name \<noteq> Undef"
  with Obj have "name \<in> fst ` set fs"
    by (auto simp: lookup_def split: option.splits dest: map_of_SomeD intro: rev_image_eqI)
  with Obj show ?thesis
    by (simp add: assign_def AList.update_keys)
qed simp_all

lemma lookup_assign:
  "lookup (assign name v fs) p = (if p = name then v else lookup fs p)"
  by (simp add: assign_def lookup_def AList.update_conv')

text \<open>
  Claim C4, as amended. If the store rejects the persistence step of \<^verbatim>\<open>save\<close>, \<^verbatim>\<open>save\<close>
  does not raise: it logs the failure and returns the input object, with the same
  property names and every property other than the handle as before, and with no handle
  attached or replaced. An object that had no handle is returned exactly as it was. For
  an object that had a handle, the \<^verbatim>\<open>entity\<close> field still refers to the same document
  (same class name, same identifier), which keeps the attribute changes that flatten
  made on it in place.

  The persistence step is the store call on the document that \<^verbatim>\<open>mappings\<close> produced.
\<close>

theorem save_rejected_keeps_object:
  assumes m: "mappings cn entityObject = Inr parseObject"
    and r: "store_save parseObject = None"
  shows "\<exists>returned.
           save cn store_save entityObject =
             (Inr returned, [StoreSave parseObject, ConsoleError ''Error in saving entity''])
         \<and> keys returned = keys entityObject
         \<and> (\<forall>p. p \<noteq> ''entity'' \<longrightarrow> propOf returned p = propOf entityObject p)
         \<and> (propOf entityObject ''entity'' = Undef \<longrightarrow> returned = entityObject)
         \<and> (propOf entityObject ''entity'' \<noteq> Undef \<longrightarrow>
              propOf returned ''entity'' = parseObject
              \<and> className parseObject = className (propOf entityObject ''entity'')
              \<and> idOf parseObject = idOf (propOf entityObject ''entity''))"
proof (cases "propOf entityObject ''entity'' = Undef")
  case True
  with m r show ?thesis by (simp add: save_def)
next
  case False
  then obtain k fs where o: "entityObject = Obj k fs" by (cases entityObject) auto
  define returned where "returned = setProp ''entity'' parseObject entityObject"
  have s: "save cn store_save entityObject =
             (Inr returned, [StoreSave parseObject, ConsoleError ''Error in saving entity''])"
    using m r False unfolding returned_def by (simp add: save_def)
  have k: "keys returned = keys entityObject"
    unfolding returned_def by (rule keys_setProp_present [OF False])
  have p: "\<forall>p. p \<noteq> ''entity'' \<longrightarrow> propOf returned p = propOf entityObject p"
    unfolding returned_def o by (simp add: lookup_assign)
  have e: "propOf returned ''entity'' = parseObject"
    unfolding returned_def o by (simp add: lookup_assign)
  from mappings_keeps_handle [OF False m] obtain k' c i as as' where
    "propOf entityObject ''entity'' = PObject k' c i as" and "parseObject = PObject k' c i as'"
    by blast
  then have c: "className parseObject = className (propOf entityObject ''entity'')"
    and i: "idOf parseObject = idOf (propOf entityObject ''entity'')"
    by simp_all
  from s k p e c i False show ?thesis by blast
qed

lemma mappings_ex_edited_task: "mappings ''Task'' ex_edited_task = Inr ex_edited_doc"
  by (simp add: ex_edited_task_def ex_edited_doc_def ex_handle_def flatten_eval)

theorem save_rejected_keeps_object_witness:
  "fst (save ''Task'' (\<lambda>doc. None) ex_task_Y) = Inr ex_task_Y
   \<and> ConsoleError ''Error in saving entity'' \<in> set (snd (save ''Task'' (\<lambda>doc. None) ex_task_Y))
   \<and> propOf ex_edited_task ''entity'' = ex_handle
   \<and> propOf (projr (fst (save ''Task'' (\<lambda>doc. None) ex_edited_task))) ''entity'' = ex_edited_doc
   \<and> propOf (projr (fst (save ''Task'' (\<lambda>doc. None) ex_edited_task))) ''title'' = Scalar (SStr ''Z'')
   \<and> idOf ex_edited_doc = idOf ex_handle
   \<and> className ex_edited_doc = className ex_handle"
proof -
  have a: "propOf ex_task_Y ''entity'' = Undef"
    by (simp add: ex_task_Y_def lookup_def)
  have b: "propOf ex_edited_task ''entity'' = ex_handle"
    and t: "propOf ex_edited_task ''title'' = Scalar (SStr ''Z'')"
    by (simp_all add: ex_edited_task_def lookup_def)
  have h: "ex_handle \<noteq> Undef"
    by (simp add: ex_handle_def)
  have n: "(\<lambda>doc. None) (projr (mappings ''Task'' ex_task_Y)) = (None :: val option)"
    by simp
  from save_rejected_keeps_object [OF mappings_ex_task_Y, of "\<lambda>doc. None"] a
  have 1: "fst (save ''Task'' (\<lambda>doc. None) ex_task_Y) = Inr ex_task_Y
     \<and> ConsoleError ''Error in saving entity'' \<in> set (snd (save ''Task'' (\<lambda>doc. None) ex_task_Y))"
    by auto
  from save_rejected_keeps_object [OF mappings_ex_edited_task, of "\<lambda>doc. None"] b t h
  have 2: "propOf (projr (fst (save ''Task'' (\<lambda>doc. None) ex_edited_task))) ''entity'' = ex_edited_doc
     \<and> propOf (projr (fst (save ''Task'' (\<lambda>doc. None) ex_edited_task))) ''title'' = Scalar (SStr ''Z'')
     \<and> idOf ex_edited_doc = idOf ex_handle
     \<and> className ex_edited_doc = className ex_handle"
    by auto
  from 1 2 b show ?thesis by simp
qed

text \<open>The claim as it is written says that the handle field is as it was before the call.
  For an object with a handle it is not: the handle of the edited task had the title
  \<^verbatim>\<open>Y\<close> before the call and has the title \<^verbatim>\<open>Z\<close> and the two bookkeeping attributes after
  it, although the store rejected the save.\<close>

theorem rejected_save_leaves_handle_changed:
  "propOf ex_edited_task ''entity'' = ex_handle
   \<and> get_p ex_handle ''title'' = Scalar (SStr ''Y'')
   \<and> save ''Task'' (\<lambda>doc. None) ex_edited_task =
       (Inr (Obj EntityObjectK [(''title'', Scalar (SStr ''Z'')), (''entity'', ex_edited_doc)]),
        [StoreSave ex_edited_doc, ConsoleError ''Error in saving entity''])
   \<and> get_p ex_edited_doc ''title'' = Scalar (SStr ''Z'')
   \<and> ex_edited_doc \<noteq> ex_handle"
  by (simp add: save_def mappings_ex_edited_task)
     (simp add: ex_edited_task_def ex_edited_doc_def ex_handle_def lookup_def get_p_def assign_def)

end
